theory Spec2Isabelle
  imports Main
begin

section \<open>Characters, C strings and the classification functions of ctype.h\<close>

text \<open>
  \<^verbatim>\<open>fgetc\<close> returns a byte or \<^verbatim>\<open>EOF\<close>: the value read is a \<open>char option\<close>, \<open>None\<close> being
  \<^verbatim>\<open>EOF\<close>. The program never calls \<^verbatim>\<open>setlocale\<close>, so \<^verbatim>\<open>isalpha\<close>, \<^verbatim>\<open>isalnum\<close> and
  \<^verbatim>\<open>isspace\<close> are those of the C locale; all three are false on \<^verbatim>\<open>EOF\<close>.
\<close>

type_synonym cint = "char option"

abbreviation NUL :: char where "NUL \<equiv> CHR 0x00"
abbreviation newline :: char where "newline \<equiv> CHR 0x0A"
abbreviation backslash :: char where "backslash \<equiv> CHR 0x5C"
abbreviation dq :: char where "dq \<equiv> CHR 0x22"
abbreviation sq :: char where "sq \<equiv> CHR 0x27"

definition isalpha :: "cint \<Rightarrow> bool" where
  "isalpha c = (case c of None \<Rightarrow> False
     | Some ch \<Rightarrow> (let n = (of_char ch :: nat) in (65 \<le> n \<and> n \<le> 90) \<or> (97 \<le> n \<and> n \<le> 122)))"

definition isalnum :: "cint \<Rightarrow> bool" where
  "isalnum c = (case c of None \<Rightarrow> False
     | Some ch \<Rightarrow> (let n = (of_char ch :: nat) in (48 \<le> n \<and> n \<le> 57) \<or> isalpha c))"

definition isspace :: "cint \<Rightarrow> bool" where
  "isspace c = (case c of None \<Rightarrow> False
     | Some ch \<Rightarrow> (let n = (of_char ch :: nat) in n = 32 \<or> (9 \<le> n \<and> n \<le> 13)))"

text \<open>The C string held in a byte sequence: the bytes before the first terminator.\<close>

definition cstr :: "string \<Rightarrow> string" where
  "cstr p = takeWhile (\<lambda>ch. ch \<noteq> NUL) p"

section \<open>Data model\<close>

text \<open>
  \<^verbatim>\<open>struct token\<close>: where a component of the accumulated chain starts in \<^verbatim>\<open>buff\<close> and the
  line it was seen on. The field \<^verbatim>\<open>start\<close> is \<open>tstart\<close> here, because \<open>start\<close> is also a
  lexical state.
\<close>

record struct_token =
  tstart :: nat
  atline :: nat

datatype fstate = start | slash | comment | star | bsl | dquote | squote | token | minus'

datatype wstate = word | dot | other

text \<open>
  The option switches, the compiled pattern and the replacement text are set by
  \<^verbatim>\<open>main\<close> before the first source is read and never change afterwards. The regular
  expression library (\<^verbatim>\<open>regexp.h\<close>) is not part of the repository: \<open>pat\<close> is the
  predicate \<^verbatim>\<open>regexec(pat, .)\<close> of the compiled pattern, a parameter of the model.
\<close>

record config =
  lswitch :: bool
  aswitch :: bool
  nswitch :: bool
  sswitch :: bool
  cswitch :: bool
  rswitch :: bool
  pat :: "string \<Rightarrow> bool"
  newstr :: string

text \<open>
  What the program writes. \<open>Hit f n s\<close> is one call of \<^verbatim>\<open>printx\<close> without \<^verbatim>\<open>-A\<close>: the
  file name prefix (absent for the standard input), the line number (printed under
  \<^verbatim>\<open>-n\<close> only) and the text. \<open>Name f\<close> is the file name printed under \<^verbatim>\<open>-l\<close>. A finding
  is one line \<^verbatim>\<open>"%d: %s: found '%s'\n"\<close> of the temporary file of \<^verbatim>\<open>-A\<close>.
\<close>

datatype printed = Hit "string option" "nat option" string | Name "string option"

type_synonym finding = "nat \<times> string option \<times> string"

text \<open>
  The ways the run ends before \<^verbatim>\<open>main\<close> returns: \<^verbatim>\<open>usage()\<close>, the calls of \<^verbatim>\<open>fatal\<close>,
  and \<^verbatim>\<open>exit(0)\<close> after the editor returned a non-zero status.
\<close>

datatype halt = Usage | No_filename | Tmp_failed | Exec_failed | Editor_quit

text \<open>
  The environment: whether a temporary file can be created, and the editor started by
  \<^verbatim>\<open>callEmacs\<close> (its exit status, and the files as it leaves them). Allocation is taken
  to succeed: the buffers are lists, and \<^verbatim>\<open>ROOM\<close> and \<^verbatim>\<open>TROOM\<close> have no counterpart.
\<close>

record env =
  tmp_ok :: bool
  editor :: "string option \<Rightarrow> finding list \<Rightarrow> (string \<rightharpoonup> string) \<Rightarrow> int \<times> (string \<rightharpoonup> string)"

text \<open>
  The variables of the program: the statics of \<^verbatim>\<open>gota\<close>, the globals, the locals of
  \<^verbatim>\<open>lex\<close> and the files.
  \<^item> \<open>tokens\<close> holds the entries \<^verbatim>\<open>tokens[0 .. tokenCt-1]\<close>, so \<^verbatim>\<open>tokenCt\<close> is its length;
    \<open>buff\<close> is the C string in \<^verbatim>\<open>buff\<close>; \<open>gota_state\<close> is the static \<^verbatim>\<open>state\<close> of \<^verbatim>\<open>gota\<close>.
  \<^item> \<open>line\<close> holds the bytes \<^verbatim>\<open>line[0 .. i-1]\<close>, so the index \<^verbatim>\<open>i\<close> is its length, and
    \<open>rest\<close> the bytes of the buffer from \<^verbatim>\<open>line[i]\<close> on. The pointer \<^verbatim>\<open>w\<close> is the offset
    \<open>w\<close> into the buffer; in the source \<^verbatim>\<open>ROOM\<close> may move the buffer while \<^verbatim>\<open>w\<close> still
    points into the old one, which an offset does not show.
  \<^item> \<open>state\<close>, \<open>pstate\<close>, \<open>w\<close> and \<open>changed\<close> are locals of \<^verbatim>\<open>lex\<close>. The source does not
    initialise \<^verbatim>\<open>pstate\<close> and \<^verbatim>\<open>w\<close>; each is written before it is read.
  \<^item> \<open>tname\<close> tells whether the temporary file of \<^verbatim>\<open>-A\<close> is open and \<open>tmpf\<close> is its
    contents; \<open>tfp\<close> is what replace mode wrote to its stream \<^verbatim>\<open>tfp\<close> (the standard
    output when the standard input is read, a temporary file otherwise).
  \<^item> \<open>out\<close> and \<open>err\<close> are what was printed on the standard output and the standard
    error, \<open>fs\<close> maps the names of the readable files to their contents, \<open>stdin\<close> is the
    standard input.
  Line numbers and lengths are natural numbers: the overflow of an \<^verbatim>\<open>int\<close> after
  \<open>2^31\<close> lines or bytes is not modelled.
\<close>

record cgrep =
  tokens :: "struct_token list"
  gota_state :: wstate
  blen :: nat
  buff :: string
  line :: string
  rest :: string
  lineno :: nat
  marked :: bool
  filen :: "string option"
  tname :: bool
  tmpf :: "finding list"
  state :: fstate
  pstate :: fstate
  w :: nat
  changed :: bool
  tfp :: string
  out :: "printed list"
  err :: "string list"
  fs :: "string \<rightharpoonup> string"
  stdin :: string

text \<open>The variables at program start: statics and globals are zero (\<open>word\<close> is 0).\<close>

definition init :: "(string \<rightharpoonup> string) \<Rightarrow> string \<Rightarrow> cgrep" where
  "init files inp = \<lparr> tokens = [], gota_state = word, blen = 0, buff = [], line = [], rest = [],
     lineno = 0, marked = False, filen = None, tname = False, tmpf = [], state = start,
     pstate = start, w = 0, changed = False, tfp = [], out = [], err = [], fs = files,
     stdin = inp \<rparr>"

definition bind :: "halt + 'a \<Rightarrow> ('a \<Rightarrow> halt + 'b) \<Rightarrow> halt + 'b" where
  "bind m f = (case m of Inl h \<Rightarrow> Inl h | Inr x \<Rightarrow> f x)"

section \<open>Reporting: emacsLine and printx\<close>

definition emacsLine :: "env \<Rightarrow> string \<Rightarrow> nat \<Rightarrow> cgrep \<Rightarrow> halt + cgrep" where
  "emacsLine e found atl s =
     (if \<not> tname s \<and> \<not> tmp_ok e then Inl Tmp_failed
      else Inr (s\<lparr>tname := True,
                  tmpf := (if tname s then tmpf s else []) @ [(atl, filen s, found)]\<rparr>))"

definition printx :: "config \<Rightarrow> env \<Rightarrow> string \<Rightarrow> cgrep \<Rightarrow> halt + cgrep" where
  "printx cfg e str s =
     (if aswitch cfg then emacsLine e str (lineno s) s
      else Inr (s\<lparr>out := out s @
                  [Hit (filen s) (if nswitch cfg then Some (lineno s) else None) str]\<rparr>))"

section \<open>The word machine: gota\<close>

text \<open>
  The loop \<^verbatim>\<open>for (i = 0; i < tokenCt; i++)\<close> of \<^verbatim>\<open>gota\<close>, over the entries still to test:
  \<^verbatim>\<open>buff + tokens[i].start\<close> is tested against the pattern; a match is written to the
  findings under \<^verbatim>\<open>-A\<close> and the loop goes on, otherwise it sets \<^verbatim>\<open>marked\<close> and the loop
  ends.
\<close>

fun check :: "config \<Rightarrow> env \<Rightarrow> struct_token list \<Rightarrow> cgrep \<Rightarrow> halt + cgrep" where
  "check cfg e [] s = Inr s"
| "check cfg e (t # ts) s =
     (let p = drop (tstart t) (buff s) in
      if pat cfg p then
        (if aswitch cfg then bind (emacsLine e p (atline t) s) (check cfg e ts)
         else Inr (s\<lparr>marked := True\<rparr>))
      else check cfg e ts s)"

text \<open>
  \<^verbatim>\<open>gota(got, what)\<close>. \<^verbatim>\<open>what\<close> is \<^verbatim>\<open>NULL\<close> only with \<^verbatim>\<open>other\<close>, which never reads it; the
  model passes the empty string there.
\<close>

definition gota :: "config \<Rightarrow> env \<Rightarrow> wstate \<Rightarrow> string \<Rightarrow> cgrep \<Rightarrow> halt + cgrep" where
  "gota cfg e got what s =
     (if sswitch cfg \<or> cswitch cfg then Inr s
      else if rswitch cfg then Inr (s\<lparr>marked := (got = word \<and> pat cfg what)\<rparr>)
      else case got of
        word \<Rightarrow>
          (let wlen = length what;
               s1 = (case gota_state s of
                       dot \<Rightarrow> s\<lparr>tokens := tokens s @ [\<lparr>tstart = blen s, atline = lineno s\<rparr>],
                                 blen := blen s + wlen, buff := buff s @ what\<rparr>
                     | _ \<Rightarrow> s\<lparr>tokens := [\<lparr>tstart = 0, atline = lineno s\<rparr>],
                               blen := wlen, buff := what\<rparr>)
           in bind (check cfg e (tokens s1) s1) (\<lambda>s2. Inr (s2\<lparr>gota_state := word\<rparr>)))
      | dot \<Rightarrow>
          if gota_state s = word
          then Inr (s\<lparr>blen := blen s + length what, buff := buff s @ what, gota_state := dot\<rparr>)
          else Inr (s\<lparr>gota_state := other\<rparr>)
      | other \<Rightarrow> Inr (s\<lparr>gota_state := other\<rparr>))"

section \<open>The lexical pass: lex\<close>

text \<open>The C string at \<^verbatim>\<open>line + p\<close>.\<close>

definition peek :: "cgrep \<Rightarrow> nat \<Rightarrow> string" where
  "peek s p = cstr (drop p (line s @ rest s))"

text \<open>
  Lines 431 to 436: \<^verbatim>\<open>i += strlen(newstr) - strlen(w); strcpy(w, newstr); changed = 1\<close>.
\<close>

definition replace_word :: "config \<Rightarrow> cgrep \<Rightarrow> cgrep" where
  "replace_word cfg s =
     (let buf = line s @ rest s;
          i' = length (line s) + length (newstr cfg) - length (peek s (w s));
          buf' = take (w s) buf @ newstr cfg @ NUL # drop (w s + length (newstr cfg) + 1) buf
      in s\<lparr>line := take i' buf', rest := drop i' buf', changed := True\<rparr>)"

text \<open>\<^verbatim>\<open>case start\<close> of the switch, entered with \<^verbatim>\<open>state == start\<close>.\<close>

definition in_start :: "config \<Rightarrow> env \<Rightarrow> cint \<Rightarrow> cgrep \<Rightarrow> halt + cgrep" where
  "in_start cfg e c s =
     (if c = Some (CHR ''.'') then gota cfg e dot ''.'' s
      else if c = Some (CHR ''-'') then Inr (s\<lparr>state := minus'\<rparr>)
      else if c = Some (CHR ''/'') then Inr (s\<lparr>state := slash\<rparr>)
      else if c = Some backslash then Inr (s\<lparr>pstate := state s, state := bsl\<rparr>)
      else if c = Some dq then Inr (s\<lparr>w := length (line s), state := dquote\<rparr>)
      else if c = Some sq then Inr (s\<lparr>state := squote\<rparr>)
      else if isalpha c then Inr (s\<lparr>w := length (line s), state := token\<rparr>)
      else if \<not> isspace c then gota cfg e other [] s
      else Inr s)"

text \<open>\<^verbatim>\<open>case comment\<close> of the switch.\<close>

definition in_comment :: "cint \<Rightarrow> cgrep \<Rightarrow> cgrep" where
  "in_comment c s = (if c = Some (CHR ''*'') then s\<lparr>state := star\<rparr> else s)"

text \<open>
  \<^verbatim>\<open>switch (state)\<close>, lines 417 to 522, with its jumps to \<^verbatim>\<open>isstart\<close> and its falls
  through to the next case written out. In \<^verbatim>\<open>case star\<close> the byte \<^verbatim>\<open>line[i - 1]\<close> is a
  terminator while the comment is printed and a star afterwards; the line is not empty
  there, since the star that led to this state is its last byte.
\<close>

definition lex_switch :: "config \<Rightarrow> env \<Rightarrow> cint \<Rightarrow> cgrep \<Rightarrow> halt + cgrep" where
  "lex_switch cfg e c s =
     (case state s of
        minus' \<Rightarrow>
          if c = Some (CHR ''>'')
          then bind (gota cfg e dot ''->'' s) (\<lambda>s1. Inr (s1\<lparr>state := start\<rparr>))
          else in_start cfg e c (s\<lparr>state := start\<rparr>)
      | token \<Rightarrow>
          if isalnum c \<or> c = Some (CHR ''_'') then Inr s
          else bind (gota cfg e word (peek s (w s)) s)
                 (\<lambda>s1. in_start cfg e c
                    ((if rswitch cfg \<and> marked s1 then replace_word cfg s1 else s1)
                       \<lparr>state := start\<rparr>))
      | start \<Rightarrow> in_start cfg e c s
      | slash \<Rightarrow>
          if c \<noteq> Some (CHR ''*'') then in_start cfg e c (s\<lparr>state := start\<rparr>)
          else Inr (s\<lparr>w := length (line s) + 1, state := comment\<rparr>)
      | star \<Rightarrow>
          if c = Some (CHR ''/'') then
            bind (if cswitch cfg
                  then bind (printx cfg e (peek (s\<lparr>line := butlast (line s) @ [NUL]\<rparr>) (w s)) s)
                         (\<lambda>s1. Inr (s1\<lparr>line := butlast (line s1) @ [CHR ''*'']\<rparr>))
                  else Inr s)
              (\<lambda>s2. Inr (s2\<lparr>state := start\<rparr>))
          else Inr (in_comment c (s\<lparr>state := comment\<rparr>))
      | comment \<Rightarrow> Inr (in_comment c s)
      | bsl \<Rightarrow> Inr (s\<lparr>state := pstate s\<rparr>)
      | dquote \<Rightarrow>
          if c = Some dq \<or> c = Some newline then
            (if sswitch cfg then printx cfg e (peek s (w s + 1)) (s\<lparr>state := start\<rparr>)
             else gota cfg e other [] (s\<lparr>state := start\<rparr>))
          else if c = Some backslash then Inr (s\<lparr>pstate := state s, state := bsl\<rparr>)
          else Inr s
      | squote \<Rightarrow>
          if c = Some sq \<or> c = Some newline then
            bind (gota cfg e other [] s) (\<lambda>s1. Inr (s1\<lparr>state := start\<rparr>))
          else if c = Some backslash then Inr (s\<lparr>pstate := state s, state := bsl\<rparr>)
          else Inr s)"

text \<open>
  The end of a line, lines 527 to 559, reached with \<open>c\<close> a newline or \<^verbatim>\<open>EOF\<close>. The result
  tells whether the loop is left (\<^verbatim>\<open>break\<close>).
\<close>

definition line_end :: "config \<Rightarrow> env \<Rightarrow> cint \<Rightarrow> cgrep \<Rightarrow> halt + cgrep \<times> bool" where
  "line_end cfg e c s =
     (if rswitch cfg \<and> c = None \<and> line s = [] then Inr (s, True)
      else
        let s1 = (if rswitch cfg then
                    let sa = (case c of None \<Rightarrow> s
                              | Some ch \<Rightarrow> s\<lparr>line := line s @ [ch], rest := tl (rest s)\<rparr>);
                        sb = sa\<lparr>rest := NUL # tl (rest sa)\<rparr>
                    in sb\<lparr>tfp := tfp sb @ peek sb 0, marked := False\<rparr>
                  else s)
        in bind (if cswitch cfg \<and> state s1 = comment
                 then bind (printx cfg e (peek s1 (w s1)) s1) (\<lambda>s'. Inr (s'\<lparr>w := 0\<rparr>))
                 else Inr s1)
             (\<lambda>s2. if marked s2 \<and> lswitch cfg
                    then Inr (s2\<lparr>marked := False, out := out s2 @ [Name (filen s2)]\<rparr>, True)
                    else bind (if marked s2 then printx cfg e (peek s2 0) (s2\<lparr>marked := False\<rparr>)
                               else Inr s2)
                           (\<lambda>s3. Inr (s3\<lparr>lineno := lineno s3 + 1, line := [],
                                          rest := line s3 @ rest s3\<rparr>, c = None))))"

text \<open>
  One turn of the loop of \<^verbatim>\<open>lex\<close> on the value \<open>c\<close> that \<^verbatim>\<open>fgetc\<close> returned: the terminator
  written at \<^verbatim>\<open>line[i]\<close>, the switch, then either the byte appended to the line or the
  end of the line.
\<close>

definition lex_iter :: "config \<Rightarrow> env \<Rightarrow> cint \<Rightarrow> cgrep \<Rightarrow> halt + cgrep \<times> bool" where
  "lex_iter cfg e c s =
     bind (lex_switch cfg e c (s\<lparr>rest := NUL # tl (rest s)\<rparr>))
       (\<lambda>s1. if c \<noteq> Some newline \<and> c \<noteq> None
              then Inr (s1\<lparr>line := line s1 @ [the c], rest := tl (rest s1)\<rparr>, False)
              else line_end cfg e c s1)"

text \<open>
  \<^verbatim>\<open>fgetc\<close> on the unread input: the next byte, or \<^verbatim>\<open>EOF\<close> at the end, again on every
  later call.
\<close>

definition fgetc :: "string \<Rightarrow> cint \<times> string" where
  "fgetc inp = (case inp of [] \<Rightarrow> (None, []) | ch # r \<Rightarrow> (Some ch, r))"

text \<open>
  The loop \<^verbatim>\<open>for (state = start; ; )\<close>: it has no exit condition and ends only at a
  \<^verbatim>\<open>break\<close> (or when the run is ended). Not returning is the value \<open>None\<close>. The loop
  returns the variables together with the input it has not read.
\<close>

partial_function (option) lex_loop ::
  "config \<Rightarrow> env \<Rightarrow> cgrep \<Rightarrow> string \<Rightarrow> (halt + cgrep \<times> string) option" where
  "lex_loop cfg e s inp =
     (case lex_iter cfg e (fst (fgetc inp)) s of
        Inl h \<Rightarrow> Some (Inl h)
      | Inr (s', brk) \<Rightarrow>
          if brk then Some (Inr (s', snd (fgetc inp))) else lex_loop cfg e s' (snd (fgetc inp)))"

declare lex_loop.simps [code]

text \<open>
  \<^verbatim>\<open>callEmacs\<close>: the editor is run on the file and its findings; a status of \<open>0x7f\<close> is
  fatal, any other non-zero status ends the run with \<^verbatim>\<open>exit(0)\<close>.
\<close>

definition callEmacs :: "env \<Rightarrow> cgrep \<Rightarrow> halt + cgrep" where
  "callEmacs e s =
     (let (quit, files) = editor e (filen s) (tmpf s) (fs s) in
      if quit = 0x7f then Inl Exec_failed
      else if quit \<noteq> 0 then Inl Editor_quit
      else Inr (s\<lparr>tname := False, fs := files\<rparr>))"

text \<open>
  What \<^verbatim>\<open>lex\<close> does after its loop, lines 562 to 579: in replace mode the temporary file
  takes the place of a changed file (the \<^verbatim>\<open>mv\<close> is taken to succeed); under \<^verbatim>\<open>-A\<close> the
  editor is called when there are findings.
\<close>

definition lex_finish :: "config \<Rightarrow> env \<Rightarrow> cgrep \<Rightarrow> halt + cgrep" where
  "lex_finish cfg e s =
     (let s1 = (if rswitch cfg then
                  (case filen s of None \<Rightarrow> s
                   | Some f \<Rightarrow> if changed s then s\<lparr>fs := (fs s)(f \<mapsto> tfp s)\<rparr> else s)
                else s)
      in if aswitch cfg \<and> tname s1 then callEmacs e s1 else Inr s1)"

text \<open>
  The pass over one source, lines 410 to 560 of \<^verbatim>\<open>lex\<close>: the line number is 1, the line
  is empty, nothing is marked, \<^verbatim>\<open>gota(other, NULL)\<close> resets the word machine, and the loop
  runs from the state \<open>start\<close>. Bytes left in the line buffer by an earlier pass are
  never read (every read starts at a pointer set in this pass and ends at a terminator
  written in it), so the pass starts with \<open>rest\<close> empty.
\<close>

definition lex_pass ::
  "config \<Rightarrow> env \<Rightarrow> cgrep \<Rightarrow> string \<Rightarrow> (halt + cgrep \<times> string) option" where
  "lex_pass cfg e s inp =
     (case gota cfg e other [] (s\<lparr>lineno := 1, line := [], rest := [], marked := False\<rparr>) of
        Inl h \<Rightarrow> Some (Inl h)
      | Inr s1 \<Rightarrow> lex_loop cfg e (s1\<lparr>state := start\<rparr>) inp)"

text \<open>
  The contents of the source named by \<^verbatim>\<open>filen\<close>: the standard input when it is \<^verbatim>\<open>NULL\<close>,
  and nothing when the file cannot be opened.
\<close>

definition source :: "cgrep \<Rightarrow> string option" where
  "source s = (case filen s of None \<Rightarrow> Some (stdin s) | Some f \<Rightarrow> fs s f)"

definition warning :: "string \<Rightarrow> string" where
  "warning f = ''cgrep: warning cannot open '' @ f @ [newline]"

text \<open>
  \<^verbatim>\<open>lex()\<close>: a file that cannot be opened gets a warning on the standard error and the
  function returns. In replace mode the output stream is opened (a temporary file
  unless the standard input is read) and nothing is changed so far. Then the pass, and
  what follows it. The source keeps the name of that temporary file in \<^verbatim>\<open>tname\<close>, the
  variable of \<^verbatim>\<open>-A\<close>; the two never meet, since \<^verbatim>\<open>main\<close> refuses \<^verbatim>\<open>-r\<close> with \<^verbatim>\<open>-A\<close>, and the
  model keeps \<open>tname\<close> for \<^verbatim>\<open>-A\<close> alone.
\<close>

definition lex :: "config \<Rightarrow> env \<Rightarrow> cgrep \<Rightarrow> (halt + cgrep) option" where
  "lex cfg e s =
     (case source s of
        None \<Rightarrow> Some (Inr (s\<lparr>err := err s @ [warning (the (filen s))]\<rparr>))
      | Some inp \<Rightarrow>
          if rswitch cfg \<and> filen s \<noteq> None \<and> \<not> tmp_ok e then Some (Inl Tmp_failed)
          else
            (case lex_pass cfg e (if rswitch cfg then s\<lparr>changed := False, tfp := []\<rparr> else s) inp of
               None \<Rightarrow> None
             | Some (Inl h) \<Rightarrow> Some (Inl h)
             | Some (Inr (s2, unread)) \<Rightarrow> Some (lex_finish cfg e s2)))"

section \<open>The sources of a run: main\<close>

text \<open>
  The loop \<^verbatim>\<open>while (optind < argc) { filen = argv[optind++]; lex(); }\<close> of \<^verbatim>\<open>main\<close>.
\<close>

fun run_files :: "config \<Rightarrow> env \<Rightarrow> string list \<Rightarrow> cgrep \<Rightarrow> (halt + cgrep) option" where
  "run_files cfg e [] s = Some (Inr s)"
| "run_files cfg e (f # files) s =
     (case lex cfg e (s\<lparr>filen := Some f\<rparr>) of
        None \<Rightarrow> None
      | Some (Inl h) \<Rightarrow> Some (Inl h)
      | Some (Inr s') \<Rightarrow> run_files cfg e files s')"

text \<open>
  \<^verbatim>\<open>main\<close> after the options are read and the pattern is compiled: \<^verbatim>\<open>-r\<close> goes with no
  other switch, \<^verbatim>\<open>-A\<close> and \<^verbatim>\<open>-l\<close> need a file name, and without file names the standard
  input is the one source.
\<close>

definition main_run :: "config \<Rightarrow> env \<Rightarrow> string list \<Rightarrow> cgrep \<Rightarrow> (halt + cgrep) option" where
  "main_run cfg e files s =
     (if rswitch cfg \<and> (aswitch cfg \<or> nswitch cfg \<or> lswitch cfg \<or> cswitch cfg \<or> sswitch cfg)
      then Some (Inl Usage)
      else if files = [] then
        (if aswitch cfg \<or> lswitch cfg then Some (Inl No_filename) else lex cfg e s)
      else run_files cfg e files s)"

section \<open>Patterns and configurations of the examples\<close>

text \<open>
  Modelled from the spec: the compiled pattern of the regular expression library, which
  is not in the repository, for a pattern \<open>q\<close> without metacharacters. \<^verbatim>\<open>main\<close> compiles
  \<^verbatim>\<open>^(q)$\<close>, "a full-match predicate: a pattern test requiring the entire candidate
  string to match, not a sub-part"; for such a \<open>q\<close> the candidate must be \<open>q\<close> itself.
\<close>

definition literal :: "string \<Rightarrow> string \<Rightarrow> bool" where
  "literal q x = (x = q)"

text \<open>The switches of \<^verbatim>\<open>cgrep pattern\<close>: none is set.\<close>

definition plain :: "(string \<Rightarrow> bool) \<Rightarrow> config" where
  "plain p = \<lparr> lswitch = False, aswitch = False, nswitch = False, sswitch = False,
     cswitch = False, rswitch = False, pat = p, newstr = [] \<rparr>"

text \<open>
  An environment for the examples: temporary files can be created, and the editor
  returns 0 and leaves the files as they are.
\<close>

definition quiet :: env where
  "quiet = \<lparr> tmp_ok = True, editor = (\<lambda>f found files. (0, files)) \<rparr>"

text \<open>
  The identifiers of the lexer: a letter starts one (line 461), letters, digits and
  underscores extend it (line 426).
\<close>

definition ident :: "string \<Rightarrow> bool" where
  "ident u = (case u of [] \<Rightarrow> False
     | a # r \<Rightarrow> isalpha (Some a) \<and> list_all (\<lambda>ch. isalnum (Some ch) \<or> ch = CHR ''_'') r)"

section \<open>Vocabulary of the statements\<close>

text \<open>A step that returns: it does not end the run.\<close>

definition returns :: "halt + 'a \<Rightarrow> bool" where
  "returns m = (\<exists>x. m = Inr x)"

text \<open>
  The findings in the temporary file of \<^verbatim>\<open>-A\<close> (none when it is not open), and the
  suffixes of the chain in \<^verbatim>\<open>buff\<close> that start at a recorded component, in the order
  of \<^verbatim>\<open>tokens\<close>.
\<close>

definition found :: "cgrep \<Rightarrow> finding list" where
  "found s = (if tname s then tmpf s else [])"

definition suffixes :: "cgrep \<Rightarrow> string list" where
  "suffixes s = map (\<lambda>t. drop (tstart t) (buff s)) (tokens s)"

text \<open>
  The switches \<^verbatim>\<open>main\<close> admits together with \<^verbatim>\<open>-r\<close>: no other one.
\<close>

definition replace_mode :: "config \<Rightarrow> bool" where
  "replace_mode cfg = (rswitch cfg \<and> \<not> aswitch cfg \<and> \<not> nswitch cfg \<and> \<not> lswitch cfg \<and>
     \<not> cswitch cfg \<and> \<not> sswitch cfg)"

text \<open>
  The spec's words for the output of replace mode, "a full reconstructed source stream
  with only matched single tokens rewritten, all other bytes, whitespace, and newlines
  preserved exactly": \<open>rewritten p new a b\<close> says that \<open>b\<close> is \<open>a\<close> with some identifiers
  that match \<open>p\<close> replaced by \<open>new\<close> and every other byte copied.
\<close>

inductive rewritten :: "(string \<Rightarrow> bool) \<Rightarrow> string \<Rightarrow> string \<Rightarrow> string \<Rightarrow> bool"
  for p :: "string \<Rightarrow> bool" and new :: string where
  nothing: "rewritten p new [] []"
| copied: "rewritten p new a b \<Longrightarrow> rewritten p new (a @ [ch]) (b @ [ch])"
| replaced: "rewritten p new a b \<Longrightarrow> ident t \<Longrightarrow> p t \<Longrightarrow> rewritten p new (a @ t) (b @ new)"



text \<open>
  The modes in which \<^verbatim>\<open>gota\<close> accumulates chains: neither \<^verbatim>\<open>-s\<close> nor \<^verbatim>\<open>-c\<close> nor \<^verbatim>\<open>-r\<close>. And
  the lexical states inside a string or character literal: in it, or after a backslash
  in it.
\<close>

definition chain_mode :: "config \<Rightarrow> bool" where
  "chain_mode cfg = (\<not> sswitch cfg \<and> \<not> cswitch cfg \<and> \<not> rswitch cfg)"

definition in_literal :: "cgrep \<Rightarrow> bool" where
  "in_literal s = (state s = dquote \<or> state s = squote \<or>
     (state s = bsl \<and> (pstate s = dquote \<or> pstate s = squote)))"

text \<open>
  A string that starts with a letter. Every string handed to the pattern does: the
  components of the chain start with one (\<open>chain_ok\<close>, which also keeps \<^verbatim>\<open>blen\<close> the length
  of \<^verbatim>\<open>buff\<close>), and so does the word being read (\<open>letters\<close>, between the turns of the loop, and
  \<open>letters_mid\<close>, after the switch of a turn that read \<open>c\<close>). \<open>unreported\<close> says that a step
  has reported and changed nothing.
\<close>

definition starts_alpha :: "string \<Rightarrow> bool" where
  "starts_alpha x = (case x of [] \<Rightarrow> False | ch # _ \<Rightarrow> isalpha (Some ch))"

definition chain_ok :: "cgrep \<Rightarrow> bool" where
  "chain_ok s = (blen s = length (buff s) \<and>
     list_all (\<lambda>t. tstart t \<le> length (buff s) \<and> starts_alpha (drop (tstart t) (buff s))) (tokens s))"

definition letters :: "config \<Rightarrow> cgrep \<Rightarrow> bool" where
  "letters cfg s = (\<not> marked s \<and> (state s = bsl \<longrightarrow> pstate s \<noteq> token) \<and>
     (state s = token \<longrightarrow> starts_alpha (drop (w s) (line s))) \<and>
     (\<not> rswitch cfg \<and> gota_state s \<noteq> other \<longrightarrow> chain_ok s))"

definition letters_mid :: "config \<Rightarrow> cint \<Rightarrow> cgrep \<Rightarrow> bool" where
  "letters_mid cfg c s = (\<not> marked s \<and> (state s = bsl \<longrightarrow> pstate s \<noteq> token) \<and>
     (state s = token \<longrightarrow>
        ((isalnum c \<or> c = Some (CHR ''_'')) \<and> starts_alpha (drop (w s) (line s))) \<or>
        (isalpha c \<and> w s = length (line s))) \<and>
     (\<not> rswitch cfg \<and> gota_state s \<noteq> other \<longrightarrow> chain_ok s))"

definition unreported :: "cgrep \<Rightarrow> cgrep \<Rightarrow> bool" where
  "unreported s s' = (out s' = out s \<and> tmpf s' = tmpf s \<and> tname s' = tname s \<and>
     changed s' = changed s)"

text \<open>
  A chain as \<^verbatim>\<open>gota\<close> builds it: \<^verbatim>\<open>blen\<close> is the length of \<^verbatim>\<open>buff\<close>, the first recorded start
  is 0, and the recorded starts increase and lie inside \<^verbatim>\<open>buff\<close>.
\<close>

definition well_formed :: "cgrep \<Rightarrow> bool" where
  "well_formed s = (blen s = length (buff s) \<and> map tstart (take 1 (tokens s)) = [0] \<and>
     sorted_wrt (<) (map tstart (tokens s)) \<and>
     list_all (\<lambda>t. tstart t < length (buff s)) (tokens s))"

section \<open>The loop of the pass\<close>

text \<open>
  At the end of the input every turn of the loop leaves it, so the loop unfolds along
  the input.
\<close>

lemma lex_iter_eof: "lex_iter cfg e None s = Inr (s', b) \<Longrightarrow> b"
  by (auto simp: lex_iter_def line_end_def bind_def Let_def split: sum.splits if_splits)

lemma lex_loop_Nil:
  "lex_loop cfg e s [] = (case lex_iter cfg e None s of Inl h \<Rightarrow> Some (Inl h) | Inr (s', brk) \<Rightarrow> Some (Inr (s', [])))"
  by (subst lex_loop.simps) (auto simp: fgetc_def split: sum.splits dest: lex_iter_eof)

lemma lex_loop_Cons:
  "lex_loop cfg e s (ch # inp) = (case lex_iter cfg e (Some ch) s of Inl h \<Rightarrow> Some (Inl h)
      | Inr (s', brk) \<Rightarrow> if brk then Some (Inr (s', inp)) else lex_loop cfg e s' inp)"
  by (subst lex_loop.simps) (simp add: fgetc_def split: sum.splits)

lemma lex_loop_total: "\<exists>r. lex_loop cfg e s inp = Some r"
proof (induction inp arbitrary: s)
  case Nil
  show ?case by (simp add: lex_loop_Nil split: sum.splits prod.splits)
next
  case (Cons ch inp)
  show ?case
  proof (cases "lex_iter cfg e (Some ch) s")
    case (Inl h)
    then show ?thesis by (simp add: lex_loop_Cons)
  next
    case (Inr p)
    obtain s' brk where p: "p = (s', brk)" by (cases p)
    from Cons[of s'] Inr p show ?thesis by (cases brk) (simp_all add: lex_loop_Cons)
  qed
qed

subsection \<open>Steps that cannot end the run\<close>

text \<open>
  Only \<^verbatim>\<open>emacsLine\<close> can end the run inside the loop, when the temporary file of \<^verbatim>\<open>-A\<close>
  cannot be created.
\<close>

lemma returns_Inr: "returns (Inr x)"
  by (simp add: returns_def)

lemma returns_bind: "returns m \<Longrightarrow> (\<And>x. returns (f x)) \<Longrightarrow> returns (bind m f)"
  by (auto simp: returns_def bind_def)

lemma returns_if: "(b \<Longrightarrow> returns x) \<Longrightarrow> (\<not> b \<Longrightarrow> returns y) \<Longrightarrow> returns (if b then x else y)"
  by simp

lemma emacsLine_tname: "emacsLine e x n s = Inr s' \<Longrightarrow> tname s'"
  by (auto simp: emacsLine_def split: if_splits)

lemma check_returns_tname: "tname s \<Longrightarrow> returns (check cfg e ts s)"
proof (induction ts arbitrary: s)
  case Nil show ?case by (simp add: returns_Inr)
next
  case (Cons t ts)
  have "tname s' \<Longrightarrow> returns (check cfg e ts s')" for s' by (rule Cons.IH)
  with Cons.prems show ?case
    by (auto simp: Let_def emacsLine_def bind_def returns_Inr)
qed

lemma check_returns: "\<not> aswitch cfg \<or> tmp_ok e \<Longrightarrow> returns (check cfg e ts s)"
proof (induction ts arbitrary: s)
  case Nil show ?case by (simp add: returns_Inr)
next
  case (Cons t ts)
  then show ?case
    by (auto simp: Let_def emacsLine_def bind_def returns_Inr)
qed

lemma printx_returns: "\<not> aswitch cfg \<or> tmp_ok e \<Longrightarrow> returns (printx cfg e x s)"
  by (auto simp: printx_def emacsLine_def returns_Inr)

lemma gota_returns: "\<not> aswitch cfg \<or> tmp_ok e \<Longrightarrow> returns (gota cfg e got what s)"
  by (cases got) (auto simp: gota_def Let_def returns_Inr intro!: returns_bind check_returns)

lemma in_start_returns: "\<not> aswitch cfg \<or> tmp_ok e \<Longrightarrow> returns (in_start cfg e c s)"
  by (auto simp: in_start_def returns_Inr intro!: gota_returns)

lemma lex_switch_returns: "\<not> aswitch cfg \<or> tmp_ok e \<Longrightarrow> returns (lex_switch cfg e c s)"
  unfolding lex_switch_def
  by (cases "state s")
     (auto simp: returns_Inr intro!: returns_bind gota_returns printx_returns in_start_returns)

lemma line_end_returns: "\<not> aswitch cfg \<or> tmp_ok e \<Longrightarrow> returns (line_end cfg e c s)"
  unfolding line_end_def Let_def
  by (intro returns_if returns_bind returns_Inr printx_returns) auto

lemma lex_iter_returns: "\<not> aswitch cfg \<or> tmp_ok e \<Longrightarrow> returns (lex_iter cfg e c s)"
  unfolding lex_iter_def
  by (intro returns_if returns_bind returns_Inr line_end_returns lex_switch_returns) auto

lemma line_end_goes_on: "\<not> lswitch cfg \<Longrightarrow> line_end cfg e (Some ch) s = Inr (s', b) \<Longrightarrow> \<not> b"
  by (auto simp: line_end_def bind_def Let_def split: sum.splits if_splits)

lemma lex_iter_goes_on: "\<not> lswitch cfg \<Longrightarrow> lex_iter cfg e (Some ch) s = Inr (s', b) \<Longrightarrow> \<not> b"
  by (auto simp: lex_iter_def bind_def split: sum.splits if_splits dest: line_end_goes_on)

lemma lex_loop_reads_all:
  assumes "\<not> aswitch cfg \<or> tmp_ok e" and "\<not> lswitch cfg"
  shows "\<exists>s'. lex_loop cfg e s inp = Some (Inr (s', []))"
proof (induction inp arbitrary: s)
  case Nil
  from lex_iter_returns[OF assms(1), of None s] show ?case
    by (auto simp: lex_loop_Nil returns_def)
next
  case (Cons ch inp)
  from lex_iter_returns[OF assms(1), of "Some ch" s]
  obtain s1 b where it: "lex_iter cfg e (Some ch) s = Inr (s1, b)"
    by (auto simp: returns_def)
  with assms(2) have "\<not> b" by (rule lex_iter_goes_on)
  with it Cons[of s1] show ?case by (simp add: lex_loop_Cons)
qed

lemma lex_pass_total: "\<exists>r. lex_pass cfg e s inp = Some r"
  using lex_loop_total by (simp add: lex_pass_def split: sum.splits)

lemma lex_total: "\<exists>r. lex cfg e s = Some r"
proof (cases "source s")
  case None
  then show ?thesis by (simp add: lex_def)
next
  case (Some src)
  from lex_pass_total[of cfg e "if rswitch cfg then s\<lparr>changed := False, tfp := []\<rparr> else s" src]
  obtain r where "lex_pass cfg e (if rswitch cfg then s\<lparr>changed := False, tfp := []\<rparr> else s) src = Some r"
    by blast
  with Some show ?thesis by (simp add: lex_def split: sum.splits prod.splits)
qed

text \<open>
  Claim C7. For every finite input the pass over a source terminates, also when the
  input ends inside a comment that is never closed: the loop of \<^verbatim>\<open>lex\<close> returns for every
  configuration, every state and every input, and so does \<^verbatim>\<open>lex\<close>. When no temporary
  file is missing and \<^verbatim>\<open>-l\<close> does not stop the pass at the first hit, the pass returns
  normally with the whole input read.
\<close>

theorem lex_terminates:
  "(\<exists>r. lex_pass cfg e s inp = Some r) \<and> (\<exists>r. lex cfg e s = Some r) \<and>
   ((\<not> aswitch cfg \<or> tmp_ok e) \<and> \<not> lswitch cfg \<longrightarrow>
      (\<exists>s'. lex_pass cfg e s inp = Some (Inr (s', []))))"
proof (intro conjI impI)
  show "\<exists>r. lex_pass cfg e s inp = Some r" by (rule lex_pass_total)
  show "\<exists>r. lex cfg e s = Some r" by (rule lex_total)
next
  assume h: "(\<not> aswitch cfg \<or> tmp_ok e) \<and> \<not> lswitch cfg"
  then have g: "returns (gota cfg e other [] (s\<lparr>lineno := 1, line := [], rest := [], marked := False\<rparr>))"
    by (intro gota_returns) simp
  then obtain s1 where "gota cfg e other [] (s\<lparr>lineno := 1, line := [], rest := [], marked := False\<rparr>) = Inr s1"
    by (auto simp: returns_def)
  with lex_loop_reads_all[of cfg e "s1\<lparr>state := start\<rparr>" inp] h
  show "\<exists>s'. lex_pass cfg e s inp = Some (Inr (s', []))"
    by (simp add: lex_pass_def)
qed

theorem lex_terminates_witness:
  "(\<exists>r. lex_pass (plain (literal ''a'')) quiet (init Map.empty []) ''a /* x'' = Some r) \<and>
   tmp_ok quiet \<and> \<not> lswitch (plain (literal ''a'')) \<and>
   (\<exists>s'. lex_pass (plain (literal ''a'')) quiet (init Map.empty []) ''a /* x'' = Some (Inr (s', [])))"
  using lex_terminates[of "plain (literal ''a'')" quiet "init Map.empty []" "''a /* x''"]
  by (simp add: plain_def quiet_def)

section \<open>The word machine tests every recorded suffix\<close>

text \<open>The equations that run the program on a concrete input.\<close>

lemma cstr_Nil: "cstr [] = []" by (simp add: cstr_def)
lemma cstr_Cons: "cstr (ch # xs) = (if ch = NUL then [] else ch # cstr xs)" by (simp add: cstr_def)

lemmas run = lex_def lex_pass_def source_def lex_loop_Nil lex_loop_Cons lex_iter_def lex_switch_def
  in_start_def in_comment_def line_end_def gota_def bind_def peek_def cstr_Nil cstr_Cons isalpha_def
  isalnum_def isspace_def init_def Let_def printx_def emacsLine_def lex_finish_def callEmacs_def
  replace_word_def plain_def literal_def quiet_def found_def

lemma check_A:
  "aswitch cfg \<Longrightarrow> tmp_ok e \<or> tname s \<Longrightarrow>
   \<exists>s'. check cfg e ts s = Inr s' \<and> buff s' = buff s \<and> tokens s' = tokens s \<and> marked s' = marked s \<and>
     gota_state s' = gota_state s \<and> filen s' = filen s \<and>
     found s' = found s @ map (\<lambda>t. (atline t, filen s, drop (tstart t) (buff s)))
                            (filter (\<lambda>t. pat cfg (drop (tstart t) (buff s))) ts)"
proof (induction ts arbitrary: s)
  case Nil
  show ?case by simp
next
  case (Cons t ts)
  show ?case
  proof (cases "pat cfg (drop (tstart t) (buff s))")
    case False
    with Cons.IH[OF Cons.prems] show ?thesis by (simp add: Let_def)
  next
    case True
    define s1 where "s1 = s\<lparr>tname := True,
        tmpf := (if tname s then tmpf s else []) @ [(atline t, filen s, drop (tstart t) (buff s))]\<rparr>"
    have e1: "emacsLine e (drop (tstart t) (buff s)) (atline t) s = Inr s1"
      using Cons.prems(2) by (auto simp: emacsLine_def s1_def)
    have p1: "tmp_ok e \<or> tname s1" by (simp add: s1_def)
    have f1: "found s1 = found s @ [(atline t, filen s, drop (tstart t) (buff s))]"
      by (simp add: found_def s1_def)
    from Cons.IH[OF Cons.prems(1) p1] obtain s' where
      "check cfg e ts s1 = Inr s'" "buff s' = buff s1" "tokens s' = tokens s1" "marked s' = marked s1"
      "gota_state s' = gota_state s1" "filen s' = filen s1"
      "found s' = found s1 @ map (\<lambda>t. (atline t, filen s1, drop (tstart t) (buff s1)))
                            (filter (\<lambda>t. pat cfg (drop (tstart t) (buff s1))) ts)"
      by blast
    with True e1 f1 Cons.prems(1) show ?thesis
      by (simp add: Let_def bind_def s1_def)
  qed
qed

lemma check_mark:
  "\<not> aswitch cfg \<Longrightarrow>
   check cfg e ts s = Inr (if list_ex (\<lambda>t. pat cfg (drop (tstart t) (buff s))) ts then s\<lparr>marked := True\<rparr> else s)"
  by (induction ts) (simp_all add: Let_def)


lemma found_gota_state [simp]: "found (s\<lparr>gota_state := x\<rparr>) = found s"
  by (simp add: found_def)

lemma gota_word_chain:
  assumes m: "\<not> sswitch cfg" "\<not> cswitch cfg" "\<not> rswitch cfg" and h: "\<not> aswitch cfg \<or> tmp_ok e \<or> tname s"
  shows "\<exists>s'. gota cfg e word what s = Inr s' \<and>
      buff s' = (if gota_state s = dot then buff s @ what else what) \<and>
      tokens s' = (if gota_state s = dot then tokens s @ [\<lparr>tstart = blen s, atline = lineno s\<rparr>]
                   else [\<lparr>tstart = 0, atline = lineno s\<rparr>]) \<and>
      gota_state s' = word \<and>
      (if aswitch cfg
       then marked s' = marked s \<and>
            found s' = found s @ map (\<lambda>t. (atline t, filen s, drop (tstart t) (buff s')))
                                   (filter (\<lambda>t. pat cfg (drop (tstart t) (buff s'))) (tokens s'))
       else found s' = found s \<and> marked s' = (marked s \<or> list_ex (pat cfg) (suffixes s')))"
proof -
  define s1 where "s1 = (case gota_state s of
                       dot \<Rightarrow> s\<lparr>tokens := tokens s @ [\<lparr>tstart = blen s, atline = lineno s\<rparr>],
                                 blen := blen s + length what, buff := buff s @ what\<rparr>
                     | _ \<Rightarrow> s\<lparr>tokens := [\<lparr>tstart = 0, atline = lineno s\<rparr>],
                               blen := length what, buff := what\<rparr>)"
  have g: "gota cfg e word what s = bind (check cfg e (tokens s1) s1) (\<lambda>s2. Inr (s2\<lparr>gota_state := word\<rparr>))"
    using m by (simp add: gota_def Let_def s1_def)
  have b1: "buff s1 = (if gota_state s = dot then buff s @ what else what)"
    and t1: "tokens s1 = (if gota_state s = dot then tokens s @ [\<lparr>tstart = blen s, atline = lineno s\<rparr>]
                   else [\<lparr>tstart = 0, atline = lineno s\<rparr>])"
    and o1: "found s1 = found s" "marked s1 = marked s" "filen s1 = filen s" "tname s1 = tname s"
    by (simp_all add: s1_def found_def split: wstate.splits)
  show ?thesis
  proof (cases "aswitch cfg")
    case True
    with h o1 have "tmp_ok e \<or> tname s1" by simp
    from check_A[OF True this, of "tokens s1"] obtain s2 where
      "check cfg e (tokens s1) s1 = Inr s2" "buff s2 = buff s1" "tokens s2 = tokens s1"
      "marked s2 = marked s1" 
      "found s2 = found s1 @ map (\<lambda>t. (atline t, filen s1, drop (tstart t) (buff s1)))
                            (filter (\<lambda>t. pat cfg (drop (tstart t) (buff s1))) (tokens s1))"
      by blast
    with True g b1 t1 o1 show ?thesis by (simp add: bind_def)
  next
    case False
    define s2 where "s2 = (if list_ex (pat cfg) (suffixes s1) then s1\<lparr>marked := True\<rparr> else s1)"
    have "list_ex (\<lambda>t. pat cfg (drop (tstart t) (buff s1))) (tokens s1) = list_ex (pat cfg) (suffixes s1)"
      by (simp add: suffixes_def list_ex_iff)
    then have c: "check cfg e (tokens s1) s1 = Inr s2"
      using check_mark[OF False, of e "tokens s1" s1] by (simp add: s2_def)
    define s' where "s' = s2\<lparr>gota_state := word\<rparr>"
    have g': "gota cfg e word what s = Inr s'"
      using g c by (simp add: bind_def s'_def)
    have 1: "buff s' = buff s1" "tokens s' = tokens s1" "found s' = found s1" "gota_state s' = word"
      "marked s' = (marked s1 \<or> list_ex (pat cfg) (suffixes s1))" "suffixes s' = suffixes s1"
      by (simp_all add: s'_def s2_def suffixes_def found_def)
    show ?thesis
      using False g' 1 b1 t1 o1 by simp
  qed
qed

text \<open>
  The order of the test. \<^verbatim>\<open>gota\<close> keeps the chain well formed, and in a well formed chain
  the first suffix is the whole chain and every later one is shorter than the ones before
  it.
\<close>

lemma check_blen: "check cfg e ts s = Inr s' \<Longrightarrow> blen s' = blen s \<and> buff s' = buff s \<and> tokens s' = tokens s"
proof (induction ts arbitrary: s)
  case Nil
  then show ?case by simp
next
  case (Cons t ts)
  show ?case
  proof (cases "pat cfg (drop (tstart t) (buff s))")
    case False
    with Cons show ?thesis by (simp add: Let_def)
  next
    case True
    show ?thesis
    proof (cases "aswitch cfg")
      case False
      with True Cons.prems show ?thesis by (auto simp: Let_def)
    next
      case a: True
      from Cons.prems True a obtain s1 where
        1: "emacsLine e (drop (tstart t) (buff s)) (atline t) s = Inr s1" and 2: "check cfg e ts s1 = Inr s'"
        by (auto simp: Let_def bind_def split: sum.splits)
      from 1 have "blen s1 = blen s \<and> buff s1 = buff s \<and> tokens s1 = tokens s"
        by (auto simp: emacsLine_def split: if_splits)
      with Cons.IH[OF 2] show ?thesis by simp
    qed
  qed
qed

lemma well_formed_suffixes:
  assumes "well_formed s"
  shows "sorted_wrt (\<lambda>x y. length y < length x) (suffixes s)"
proof -
  have "sorted_wrt (\<lambda>a b. length (drop (tstart b) (buff s)) < length (drop (tstart a) (buff s))) (tokens s)"
  proof (rule sorted_wrt_mono_rel[where P="\<lambda>a b. tstart a < tstart b"])
    fix a b assume "a \<in> set (tokens s)" "b \<in> set (tokens s)" "tstart a < tstart b"
    with assms show "length (drop (tstart b) (buff s)) < length (drop (tstart a) (buff s))"
      by (auto simp: well_formed_def list_all_iff)
  next
    from assms show "sorted_wrt (\<lambda>a b. tstart a < tstart b) (tokens s)"
      by (simp add: well_formed_def sorted_wrt_map)
  qed
  then show ?thesis by (simp add: suffixes_def sorted_wrt_map)
qed

lemma well_formed_hd:
  assumes "well_formed s"
  shows "take 1 (suffixes s) = [buff s]"
  using assms by (cases "tokens s") (auto simp: well_formed_def suffixes_def)

lemma well_formed_new:
  "what \<noteq> [] \<Longrightarrow> well_formed (s\<lparr>tokens := [\<lparr>tstart = 0, atline = n\<rparr>], blen := length what, buff := what\<rparr>)"
  by (simp add: well_formed_def)

lemma well_formed_word:
  assumes "well_formed s" "what \<noteq> []"
  shows "well_formed (s\<lparr>tokens := tokens s @ [\<lparr>tstart = blen s, atline = n\<rparr>],
            blen := blen s + length what, buff := buff s @ what\<rparr>)"
  using assms by (cases "tokens s") (auto simp: well_formed_def list_all_iff sorted_wrt_append)

lemma well_formed_dot:
  assumes "well_formed s"
  shows "well_formed (s\<lparr>blen := blen s + length what, buff := buff s @ what, gota_state := g\<rparr>)"
  using assms by (auto simp: well_formed_def list_all_iff)

lemma gota_word_well_formed:
  assumes m: "chain_mode cfg" and h: "aswitch cfg \<longrightarrow> tmp_ok e" and n: "what \<noteq> []"
    and wf: "gota_state s = dot \<longrightarrow> well_formed s"
  shows "\<exists>s'. gota cfg e word what s = Inr s' \<and> well_formed s' \<and> take 1 (suffixes s') = [buff s'] \<and>
           sorted_wrt (\<lambda>x y. length y < length x) (suffixes s')"
proof -
  define s1 where "s1 = (case gota_state s of
                       dot \<Rightarrow> s\<lparr>tokens := tokens s @ [\<lparr>tstart = blen s, atline = lineno s\<rparr>],
                                 blen := blen s + length what, buff := buff s @ what\<rparr>
                     | _ \<Rightarrow> s\<lparr>tokens := [\<lparr>tstart = 0, atline = lineno s\<rparr>],
                               blen := length what, buff := what\<rparr>)"
  have w1: "well_formed s1"
    using wf n well_formed_new[where what=what and s=s and n="lineno s"]
      well_formed_word[where what=what and s=s and n="lineno s"]
    by (cases "gota_state s") (simp_all add: s1_def)
  have "returns (check cfg e (tokens s1) s1)" using h by (intro check_returns) auto
  then obtain s2 where c: "check cfg e (tokens s1) s1 = Inr s2" by (auto simp: returns_def)
  from check_blen[OF c] w1 have "well_formed (s2\<lparr>gota_state := word\<rparr>)" by (simp add: well_formed_def)
  moreover have "gota cfg e word what s = Inr (s2\<lparr>gota_state := word\<rparr>)"
    using m c by (simp add: gota_def chain_mode_def Let_def bind_def s1_def[symmetric])
  ultimately show ?thesis using well_formed_suffixes well_formed_hd by blast
qed

lemma gota_dot_well_formed:
  assumes "chain_mode cfg" "gota_state s = word" "well_formed s"
  shows "\<exists>s'. gota cfg e dot what s = Inr s' \<and> gota_state s' = dot \<and> well_formed s'"
  using assms well_formed_dot[where s=s and what=what and g=dot]
  by (simp add: gota_def chain_mode_def)

text \<open>
  Claim C1. After each completed identifier word the matcher tests every recorded
  suffix of the accumulated chain, longest first, against the pattern predicate.
  First conjunct: \<^verbatim>\<open>gota(word, what)\<close> extends the chain (after a separator) or starts a
  new one, and then tests the suffixes in the order of \<^verbatim>\<open>tokens\<close>: under \<^verbatim>\<open>-A\<close> every
  matching suffix becomes a finding, in that order, otherwise the line is marked when
  one of them matches. Second and third conjunct: that order is longest first. A word
  (the lexer only passes non-empty ones) leaves the chain well formed, its first suffix
  the whole chain and every later suffix shorter than the ones before it, and a
  separator after a word keeps the chain well formed. Fourth and fifth conjunct: on the
  line \<^verbatim>\<open>ptr->val\<close> the strings tested are \<^verbatim>\<open>ptr\<close>, then \<^verbatim>\<open>ptr->val\<close>, then \<^verbatim>\<open>val\<close>; so a
  pattern matching \<^verbatim>\<open>val\<close> and one matching \<^verbatim>\<open>ptr->val\<close> both report the line, and a pattern
  matching none of the three (such as \<^verbatim>\<open>memb\<close>) reports nothing.
\<close>

theorem chain_suffixes_tested:
  "(\<not> sswitch cfg \<and> \<not> cswitch cfg \<and> \<not> rswitch cfg \<and> (aswitch cfg \<longrightarrow> tmp_ok e) \<longrightarrow>
     (\<exists>s'. gota cfg e word what s = Inr s' \<and>
        buff s' = (if gota_state s = dot then buff s @ what else what) \<and>
        tokens s' = (if gota_state s = dot then tokens s @ [\<lparr>tstart = blen s, atline = lineno s\<rparr>]
                     else [\<lparr>tstart = 0, atline = lineno s\<rparr>]) \<and>
        (if aswitch cfg
         then found s' = found s @ map (\<lambda>t. (atline t, filen s, drop (tstart t) (buff s')))
                                     (filter (\<lambda>t. pat cfg (drop (tstart t) (buff s'))) (tokens s'))
         else marked s' = (marked s \<or> list_ex (pat cfg) (suffixes s'))))) \<and>
   (chain_mode cfg \<and> (aswitch cfg \<longrightarrow> tmp_ok e) \<and> what \<noteq> [] \<and> (gota_state s = dot \<longrightarrow> well_formed s) \<longrightarrow>
     (\<exists>s'. gota cfg e word what s = Inr s' \<and> well_formed s' \<and> take 1 (suffixes s') = [buff s'] \<and>
        sorted_wrt (\<lambda>x y. length y < length x) (suffixes s'))) \<and>
   (chain_mode cfg \<and> gota_state s = word \<and> well_formed s \<longrightarrow>
     (\<exists>s'. gota cfg e dot sep s = Inr s' \<and> gota_state s' = dot \<and> well_formed s')) \<and>
   map_option (map_sum id out) (lex (plain p) e (init files (''ptr->val'' @ [newline]))) =
     Some (Inr (if p ''ptr'' \<or> p ''ptr->val'' \<or> p ''val'' then [Hit None None ''ptr->val''] else [])) \<and>
   (tmp_ok e \<longrightarrow>
     map_option (map_sum id (found \<circ> fst))
       (lex_pass ((plain p)\<lparr>aswitch := True\<rparr>) e ((init files [])\<lparr>filen := Some f\<rparr>) (''ptr->val'' @ [newline])) =
     Some (Inr ((if p ''ptr'' then [(1, Some f, ''ptr'')] else []) @
                (if p ''ptr->val'' then [(1, Some f, ''ptr->val'')] else []) @
                (if p ''val'' then [(1, Some f, ''val'')] else []))))"
proof (intro conjI impI)
  assume "\<not> sswitch cfg \<and> \<not> cswitch cfg \<and> \<not> rswitch cfg \<and> (aswitch cfg \<longrightarrow> tmp_ok e)"
  then have "\<not> sswitch cfg" "\<not> cswitch cfg" "\<not> rswitch cfg" "\<not> aswitch cfg \<or> tmp_ok e \<or> tname s"
    by auto
  from gota_word_chain[OF this, of what] 
  show "\<exists>s'. gota cfg e word what s = Inr s' \<and>
        buff s' = (if gota_state s = dot then buff s @ what else what) \<and>
        tokens s' = (if gota_state s = dot then tokens s @ [\<lparr>tstart = blen s, atline = lineno s\<rparr>]
                     else [\<lparr>tstart = 0, atline = lineno s\<rparr>]) \<and>
        (if aswitch cfg
         then found s' = found s @ map (\<lambda>t. (atline t, filen s, drop (tstart t) (buff s')))
                                     (filter (\<lambda>t. pat cfg (drop (tstart t) (buff s'))) (tokens s'))
         else marked s' = (marked s \<or> list_ex (pat cfg) (suffixes s')))"
    by (cases "aswitch cfg") auto
next
  assume "chain_mode cfg \<and> (aswitch cfg \<longrightarrow> tmp_ok e) \<and> what \<noteq> [] \<and> (gota_state s = dot \<longrightarrow> well_formed s)"
  then show "\<exists>s'. gota cfg e word what s = Inr s' \<and> well_formed s' \<and> take 1 (suffixes s') = [buff s'] \<and>
        sorted_wrt (\<lambda>x y. length y < length x) (suffixes s')"
    using gota_word_well_formed[where cfg=cfg and e=e and what=what and s=s] by blast
next
  assume "chain_mode cfg \<and> gota_state s = word \<and> well_formed s"
  then show "\<exists>s'. gota cfg e dot sep s = Inr s' \<and> gota_state s' = dot \<and> well_formed s'"
    using gota_dot_well_formed[where cfg=cfg and s=s and what=sep and e=e] by blast
next
  show "map_option (map_sum id out) (lex (plain p) e (init files (''ptr->val'' @ [newline]))) =
     Some (Inr (if p ''ptr'' \<or> p ''ptr->val'' \<or> p ''val'' then [Hit None None ''ptr->val''] else []))"
    by (simp add: run)
next
  assume "tmp_ok e"
  then show "map_option (map_sum id (found \<circ> fst))
       (lex_pass ((plain p)\<lparr>aswitch := True\<rparr>) e ((init files [])\<lparr>filen := Some f\<rparr>) (''ptr->val'' @ [newline])) =
     Some (Inr ((if p ''ptr'' then [(1, Some f, ''ptr'')] else []) @
                (if p ''ptr->val'' then [(1, Some f, ''ptr->val'')] else []) @
                (if p ''val'' then [(1, Some f, ''val'')] else [])))"
    by (simp add: run)
qed

theorem chain_suffixes_tested_witness:
  "tmp_ok quiet \<and>
   map_option (map_sum id out) (lex (plain (literal ''val'')) quiet (init Map.empty (''ptr->val'' @ [newline]))) =
     Some (Inr [Hit None None ''ptr->val'']) \<and>
   map_option (map_sum id out) (lex (plain (literal ''ptr->val'')) quiet (init Map.empty (''ptr->val'' @ [newline]))) =
     Some (Inr [Hit None None ''ptr->val'']) \<and>
   map_option (map_sum id out) (lex (plain (literal ''memb'')) quiet (init Map.empty (''ptr->val'' @ [newline]))) =
     Some (Inr []) \<and>
   map_option (map_sum id (found \<circ> fst))
     (lex_pass ((plain (literal ''val''))\<lparr>aswitch := True\<rparr>) quiet ((init Map.empty [])\<lparr>filen := Some ''x.c''\<rparr>)
        (''ptr->val'' @ [newline])) = Some (Inr [(1, Some ''x.c'', ''val'')]) \<and>
   map_option (map_sum id (found \<circ> fst))
     (lex_pass ((plain (literal ''ptr->val''))\<lparr>aswitch := True\<rparr>) quiet ((init Map.empty [])\<lparr>filen := Some ''x.c''\<rparr>)
        (''ptr->val'' @ [newline])) = Some (Inr [(1, Some ''x.c'', ''ptr->val'')]) \<and>
   chain_mode (plain (literal ''val'')) \<and>
   well_formed ((init Map.empty [])\<lparr>gota_state := dot, buff := ''ptr->'', blen := 5,
               tokens := [\<lparr>tstart = 0, atline = 1\<rparr>], lineno := 1\<rparr>) \<and>
   (\<exists>s'. gota (plain (literal ''val'')) quiet word ''val''
            ((init Map.empty [])\<lparr>gota_state := dot, buff := ''ptr->'', blen := 5,
               tokens := [\<lparr>tstart = 0, atline = 1\<rparr>], lineno := 1\<rparr>) = Inr s' \<and>
         buff s' = ''ptr->val'' \<and> suffixes s' = [''ptr->val'', ''val''] \<and> marked s' \<and> well_formed s' \<and>
         sorted_wrt (\<lambda>x y. length y < length x) (suffixes s')) \<and>
   well_formed ((init Map.empty [])\<lparr>gota_state := word, buff := ''ptr'', blen := 3,
               tokens := [\<lparr>tstart = 0, atline = 1\<rparr>], lineno := 1\<rparr>) \<and>
   (\<exists>s'. gota (plain (literal ''val'')) quiet dot ''->''
            ((init Map.empty [])\<lparr>gota_state := word, buff := ''ptr'', blen := 3,
               tokens := [\<lparr>tstart = 0, atline = 1\<rparr>], lineno := 1\<rparr>) = Inr s' \<and>
         buff s' = ''ptr->'' \<and> gota_state s' = dot \<and> well_formed s')"
proof -
  let ?c = "plain (literal ''val'')"
  let ?d = "(init Map.empty [])\<lparr>gota_state := dot, buff := ''ptr->'', blen := 5,
               tokens := [\<lparr>tstart = 0, atline = 1\<rparr>], lineno := 1\<rparr>"
  let ?w = "(init Map.empty [])\<lparr>gota_state := word, buff := ''ptr'', blen := 3,
               tokens := [\<lparr>tstart = 0, atline = 1\<rparr>], lineno := 1\<rparr>"
  have c: "chain_mode ?c" "\<not> sswitch ?c" "\<not> cswitch ?c" "\<not> rswitch ?c" "\<not> aswitch ?c" "tmp_ok quiet"
    by (simp_all add: chain_mode_def plain_def quiet_def)
  have wd: "well_formed ?d" and ww: "well_formed ?w" by (simp_all add: well_formed_def init_def)
  note T1 = chain_suffixes_tested[where cfg="?c" and e=quiet and what="''val''" and sep="''->''"
      and s="?d" and p="literal ''val''" and files=Map.empty and f="''x.c''"]
  note T2 = chain_suffixes_tested[where cfg="?c" and e=quiet and what="''val''" and sep="''->''"
      and s="?w" and p="literal ''ptr->val''" and files=Map.empty and f="''x.c''"]
  note T3 = chain_suffixes_tested[where cfg="?c" and e=quiet and what="''val''" and sep="''->''"
      and s="?w" and p="literal ''memb''" and files=Map.empty and f="''x.c''"]
  have 1: "\<exists>s'. gota ?c quiet word ''val'' ?d = Inr s' \<and>
         buff s' = ''ptr->val'' \<and> suffixes s' = [''ptr->val'', ''val''] \<and> marked s' \<and> well_formed s' \<and>
         sorted_wrt (\<lambda>x y. length y < length x) (suffixes s')"
    using T1 c wd by (auto simp: plain_def literal_def init_def suffixes_def)
  have 2: "\<exists>s'. gota ?c quiet dot ''->'' ?w = Inr s' \<and>
         buff s' = ''ptr->'' \<and> gota_state s' = dot \<and> well_formed s'"
    using T2 c ww by (auto simp: gota_def)
  have 3: "map_option (map_sum id out) (lex (plain (literal ''val'')) quiet (init Map.empty (''ptr->val'' @ [newline]))) =
     Some (Inr [Hit None None ''ptr->val''])"
    using T1 by (simp add: literal_def)
  have 4: "map_option (map_sum id out) (lex (plain (literal ''ptr->val'')) quiet (init Map.empty (''ptr->val'' @ [newline]))) =
     Some (Inr [Hit None None ''ptr->val''])"
    using T2 by (simp add: literal_def)
  have 5: "map_option (map_sum id out) (lex (plain (literal ''memb'')) quiet (init Map.empty (''ptr->val'' @ [newline]))) =
     Some (Inr [])"
    using T3 by (simp add: literal_def)
  have 6: "map_option (map_sum id (found \<circ> fst))
     (lex_pass ((plain (literal ''val''))\<lparr>aswitch := True\<rparr>) quiet ((init Map.empty [])\<lparr>filen := Some ''x.c''\<rparr>)
        (''ptr->val'' @ [newline])) = Some (Inr [(1, Some ''x.c'', ''val'')])"
    using T1 c by (simp add: literal_def)
  have 7: "map_option (map_sum id (found \<circ> fst))
     (lex_pass ((plain (literal ''ptr->val''))\<lparr>aswitch := True\<rparr>) quiet ((init Map.empty [])\<lparr>filen := Some ''x.c''\<rparr>)
        (''ptr->val'' @ [newline])) = Some (Inr [(1, Some ''x.c'', ''ptr->val'')])"
    using T2 c by (simp add: literal_def)
  from c(6) 3 4 5 6 7 c(1) wd 1 ww 2 show ?thesis by (intro conjI)
qed

section \<open>What a pass leaves alone\<close>












section \<open>Replace mode\<close>

text \<open>\<^verbatim>\<open>main\<close> runs no pass with \<^verbatim>\<open>-r\<close> and another switch.\<close>

lemma main_run_usage:
  "rswitch cfg \<Longrightarrow> \<not> replace_mode cfg \<Longrightarrow> main_run cfg e files s = Some (Inl Usage)"
  by (auto simp: main_run_def replace_mode_def)

subsection \<open>Characters and strings\<close>





lemma isalpha_not_special:
  "isalpha (Some ch) \<Longrightarrow> ch \<noteq> CHR ''.'' \<and> ch \<noteq> CHR ''-'' \<and> ch \<noteq> CHR ''/'' \<and> ch \<noteq> backslash \<and>
     ch \<noteq> dq \<and> ch \<noteq> sq \<and> ch \<noteq> newline \<and> ch \<noteq> NUL \<and> ch \<noteq> CHR ''*'' \<and> ch \<noteq> CHR ''>'' \<and> ch \<noteq> CHR ''_''
     \<and> \<not> isspace (Some ch) \<and> isalnum (Some ch)"
  by (auto simp: isalpha_def isalnum_def isspace_def Let_def)







subsection \<open>The invariant of the loop\<close>


















subsection \<open>What replace mode matches\<close>





section \<open>Sources that cannot be opened\<close>








section \<open>Line numbers\<close>

text \<open>Empty lines only advance the line number.\<close>

lemma newline_at_start:
  assumes "state s = start" "\<not> marked s" "line s = []" "\<not> rswitch cfg"
  shows "lex_iter cfg e (Some newline) s =
           Inr (s\<lparr>lineno := lineno s + 1, rest := NUL # tl (rest s)\<rparr>, False)"
  using assms
  by (simp add: lex_iter_def lex_switch_def in_start_def isalpha_def isspace_def bind_def line_end_def)

lemma skip_newlines:
  assumes "\<not> rswitch cfg"
  shows "state s = start \<Longrightarrow> \<not> marked s \<Longrightarrow> line s = [] \<Longrightarrow>
    lex_loop cfg e s (replicate k newline @ inp) =
    lex_loop cfg e (s\<lparr>lineno := lineno s + k, rest := (if k = 0 then rest s else NUL # tl (rest s))\<rparr>) inp"
proof (induction k arbitrary: s)
  case 0
  then show ?case by simp
next
  case (Suc k)
  let ?s1 = "s\<lparr>lineno := lineno s + 1, rest := NUL # tl (rest s)\<rparr>"
  have "lex_loop cfg e s (replicate (Suc k) newline @ inp) = lex_loop cfg e ?s1 (replicate k newline @ inp)"
    using newline_at_start[OF Suc.prems assms, of e] by (simp add: lex_loop_Cons)
  also have "\<dots> = lex_loop cfg e (?s1\<lparr>lineno := lineno ?s1 + k,
       rest := (if k = 0 then rest ?s1 else NUL # tl (rest ?s1))\<rparr>) inp"
    using Suc.prems by (intro Suc.IH) simp_all
  finally show ?case by simp
qed

text \<open>
  Claim C4, as amended. In comment-report mode (\<^verbatim>\<open>-c\<close>), the input \<^verbatim>\<open>/* hello */\<close>, here
  after any number \<open>k\<close> of empty lines, causes one report: its text is the body of the
  comment, the bytes between \<^verbatim>\<open>/*\<close> and \<^verbatim>\<open>*/\<close> with the blank on either side (so
  \<^verbatim>\<open>" hello "\<close> and not \<^verbatim>\<open>"hello"\<close>), without the closing \<^verbatim>\<open>*/\<close>; its line number is the one
  the comment opened on, \<open>k + 1\<close>, printed under \<^verbatim>\<open>-n\<close> and written to the findings under
  \<^verbatim>\<open>-A\<close>.
\<close>

theorem comment_reported_once:
  "(cswitch cfg \<and> \<not> aswitch cfg \<and> \<not> rswitch cfg \<longrightarrow>
     map_option (map_sum id out) (lex cfg e (init files (replicate k newline @ ''/* hello */''))) =
       Some (Inr [Hit None (if nswitch cfg then Some (k + 1) else None) '' hello ''])) \<and>
   (cswitch cfg \<and> aswitch cfg \<and> \<not> rswitch cfg \<and> tmp_ok e \<longrightarrow>
     map_option (map_sum id (found \<circ> fst))
       (lex_pass cfg e ((init files [])\<lparr>filen := Some f\<rparr>) (replicate k newline @ ''/* hello */'')) =
       Some (Inr [(k + 1, Some f, '' hello '')]))"
  by (simp add: run skip_newlines)


theorem comment_reported_once_witness:
  "cswitch ((plain (literal []))\<lparr>cswitch := True, nswitch := True\<rparr>) \<and>
   map_option (map_sum id out)
     (lex ((plain (literal []))\<lparr>cswitch := True, nswitch := True\<rparr>) quiet
        (init Map.empty (replicate 2 newline @ ''/* hello */''))) =
   Some (Inr [Hit None (Some 3) '' hello '']) \<and>
   tmp_ok quiet \<and>
   map_option (map_sum id (found \<circ> fst))
     (lex_pass ((plain (literal []))\<lparr>cswitch := True, aswitch := True\<rparr>) quiet
        ((init Map.empty [])\<lparr>filen := Some ''a.c''\<rparr>) (replicate 2 newline @ ''/* hello */'')) =
   Some (Inr [(3, Some ''a.c'', '' hello '')])"
  using comment_reported_once[where cfg="(plain (literal []))\<lparr>cswitch := True, nswitch := True\<rparr>"
      and e=quiet and files=Map.empty and k=2 and f="''a.c''"]
    comment_reported_once[where cfg="(plain (literal []))\<lparr>cswitch := True, aswitch := True\<rparr>"
      and e=quiet and files=Map.empty and k=2 and f="''a.c''"]
  by (simp add: plain_def quiet_def)

text \<open>
  The claim as stated has the text \<^verbatim>\<open>hello\<close> reported. What is reported is not that
  text: it has a blank before and after.
\<close>

theorem comment_body_counterexample:
  "map_option (map_sum id out)
     (lex ((plain (literal []))\<lparr>cswitch := True\<rparr>) quiet (init Map.empty ''/* hello */'')) \<noteq>
   Some (Inr [Hit None None ''hello''])"
  by (simp add: run)



section \<open>String and character literals\<close>

lemma printx_chain:
  "printx cfg e x s = Inr s' \<Longrightarrow> buff s' = buff s \<and> tokens s' = tokens s \<and> gota_state s' = gota_state s \<and>
     state s' = state s \<and> pstate s' = pstate s \<and> blen s' = blen s"
  by (auto simp: printx_def emacsLine_def split: if_splits)

lemma line_end_chain:
  "line_end cfg e c s = Inr (s', b) \<Longrightarrow> buff s' = buff s \<and> tokens s' = tokens s \<and> gota_state s' = gota_state s \<and>
     state s' = state s \<and> pstate s' = pstate s \<and> blen s' = blen s"
  unfolding line_end_def
  by (auto simp: bind_def Let_def split: if_splits sum.splits option.splits dest!: printx_chain)

lemma gota_other_chain: "chain_mode cfg \<Longrightarrow> gota cfg e other [] s = Inr (s\<lparr>gota_state := other\<rparr>)"
  by (simp add: chain_mode_def gota_def)

lemma literal_switch:
  assumes "in_literal s" "chain_mode cfg" "lex_switch cfg e c s = Inr s1"
  shows "buff s1 = buff s \<and> tokens s1 = tokens s \<and>
         (in_literal s1 \<and> gota_state s1 = gota_state s \<or> state s1 = start \<and> gota_state s1 = other)"
proof -
  have ns: "\<not> sswitch cfg" using assms(2) by (simp add: chain_mode_def)
  from assms(1) consider (d) "state s = dquote" | (q) "state s = squote"
    | (b) "state s = bsl" "pstate s = dquote \<or> pstate s = squote"
    by (auto simp: in_literal_def)
  then show ?thesis
  proof cases
    case d
    with assms(3) ns show ?thesis
      by (simp add: lex_switch_def gota_other_chain[OF assms(2)] in_literal_def split: if_splits) auto
  next
    case q
    with assms(3) show ?thesis
      by (simp add: lex_switch_def gota_other_chain[OF assms(2)] bind_def in_literal_def split: if_splits) auto
  next
    case b
    with assms(3) show ?thesis
      by (simp add: lex_switch_def in_literal_def) auto
  qed
qed


lemma literal_iter:
  assumes "in_literal s" "chain_mode cfg" "lex_iter cfg e c s = Inr (s', b)"
  shows "buff s' = buff s \<and> tokens s' = tokens s \<and>
         (in_literal s' \<and> gota_state s' = gota_state s \<or> state s' = start \<and> gota_state s' = other)"
proof -
  have l: "in_literal (s\<lparr>rest := NUL # tl (rest s)\<rparr>)" using assms(1) by (simp add: in_literal_def)
  from assms(3) obtain s1 where sw: "lex_switch cfg e c (s\<lparr>rest := NUL # tl (rest s)\<rparr>) = Inr s1"
    and fin: "(if c \<noteq> Some newline \<and> c \<noteq> None
              then Inr (s1\<lparr>line := line s1 @ [the c], rest := tl (rest s1)\<rparr>, False)
              else line_end cfg e c s1) = Inr (s', b)"
    by (auto simp: lex_iter_def bind_def split: sum.splits)
  from literal_switch[OF l assms(2) sw] have 1: "buff s1 = buff s \<and> tokens s1 = tokens s \<and>
         (in_literal s1 \<and> gota_state s1 = gota_state s \<or> state s1 = start \<and> gota_state s1 = other)"
    by simp
  show ?thesis
  proof (cases "c \<noteq> Some newline \<and> c \<noteq> None")
    case True
    with fin have "s' = s1\<lparr>line := line s1 @ [the c], rest := tl (rest s1)\<rparr>" by simp
    with 1 show ?thesis by (simp add: in_literal_def)
  next
    case False
    with fin have "line_end cfg e c s1 = Inr (s', b)" by (simp split: if_splits)
    from line_end_chain[OF this] 1 show ?thesis by (simp add: in_literal_def)
  qed
qed

text \<open>
  Claim C10. The end of every double-quote string (outside strings-only mode) and of
  every single-quote character literal, whether closed by its quote or cut off by a
  newline, calls \<^verbatim>\<open>gota(other, NULL)\<close> (first and second conjunct), which breaks the chain
  (third conjunct: the word machine is in state \<open>other\<close>, so, fourth conjunct, the next
  word starts a new chain that holds this word alone). While the lexer is inside a
  literal no turn of the loop touches the chain, and the turn that leaves the literal
  leaves the word machine in state \<open>other\<close> (fifth conjunct). So no chain spans a literal
  or holds its contents: on \<^verbatim>\<open>x."lit"y\<close>, on the string cut off by the end of the line
  and on \<^verbatim>\<open>x.'c'y\<close>, only \<^verbatim>\<open>x\<close> and \<^verbatim>\<open>y\<close> are tested against the pattern (last conjunct).
\<close>

theorem literal_breaks_chain:
  "(state s = dquote \<and> \<not> sswitch cfg \<and> (c = Some dq \<or> c = Some newline) \<longrightarrow>
      lex_switch cfg e c s = gota cfg e other [] (s\<lparr>state := start\<rparr>)) \<and>
   (state s = squote \<and> (c = Some sq \<or> c = Some newline) \<longrightarrow>
      lex_switch cfg e c s = bind (gota cfg e other [] s) (\<lambda>s1. Inr (s1\<lparr>state := start\<rparr>))) \<and>
   (chain_mode cfg \<longrightarrow> gota cfg e other [] s = Inr (s\<lparr>gota_state := other\<rparr>)) \<and>
   (chain_mode cfg \<and> gota_state s = other \<and> (aswitch cfg \<longrightarrow> tmp_ok e) \<longrightarrow>
      (\<exists>s'. gota cfg e word what s = Inr s' \<and> buff s' = what \<and> suffixes s' = [what])) \<and>
   (in_literal s \<and> chain_mode cfg \<and> lex_iter cfg e c s = Inr (s', b) \<longrightarrow>
      buff s' = buff s \<and> tokens s' = tokens s \<and>
      (in_literal s' \<and> gota_state s' = gota_state s \<or> state s' = start \<and> gota_state s' = other)) \<and>
   (tmp_ok e \<longrightarrow>
      map_option (map_sum id (found \<circ> fst))
        (lex_pass ((plain p)\<lparr>aswitch := True\<rparr>) e ((init files [])\<lparr>filen := Some f\<rparr>)
           (''x.'' @ [dq] @ ''lit'' @ [dq] @ ''y'' @ [newline])) =
      Some (Inr ((if p ''x'' then [(1, Some f, ''x'')] else []) @
                 (if p ''y'' then [(1, Some f, ''y'')] else []))) \<and>
      map_option (map_sum id (found \<circ> fst))
        (lex_pass ((plain p)\<lparr>aswitch := True\<rparr>) e ((init files [])\<lparr>filen := Some f\<rparr>)
           (''x.'' @ [dq] @ ''lit'' @ [newline] @ ''y'' @ [newline])) =
      Some (Inr ((if p ''x'' then [(1, Some f, ''x'')] else []) @
                 (if p ''y'' then [(2, Some f, ''y'')] else []))) \<and>
      map_option (map_sum id (found \<circ> fst))
        (lex_pass ((plain p)\<lparr>aswitch := True\<rparr>) e ((init files [])\<lparr>filen := Some f\<rparr>)
           (''x.'' @ [sq] @ ''c'' @ [sq] @ ''y'' @ [newline])) =
      Some (Inr ((if p ''x'' then [(1, Some f, ''x'')] else []) @
                 (if p ''y'' then [(1, Some f, ''y'')] else []))))"
proof (intro conjI impI)
  assume "state s = dquote \<and> \<not> sswitch cfg \<and> (c = Some dq \<or> c = Some newline)"
  then show "lex_switch cfg e c s = gota cfg e other [] (s\<lparr>state := start\<rparr>)"
    by (auto simp: lex_switch_def)
next
  assume "state s = squote \<and> (c = Some sq \<or> c = Some newline)"
  then show "lex_switch cfg e c s = bind (gota cfg e other [] s) (\<lambda>s1. Inr (s1\<lparr>state := start\<rparr>))"
    by (auto simp: lex_switch_def)
next
  assume "chain_mode cfg"
  then show "gota cfg e other [] s = Inr (s\<lparr>gota_state := other\<rparr>)" by (rule gota_other_chain)
next
  assume a: "chain_mode cfg \<and> gota_state s = other \<and> (aswitch cfg \<longrightarrow> tmp_ok e)"
  then have "\<not> sswitch cfg" "\<not> cswitch cfg" "\<not> rswitch cfg" "\<not> aswitch cfg \<or> tmp_ok e \<or> tname s"
    by (auto simp: chain_mode_def)
  from gota_word_chain[OF this, of what] a
  show "\<exists>s'. gota cfg e word what s = Inr s' \<and> buff s' = what \<and> suffixes s' = [what]"
    by (auto simp: suffixes_def)
next
  assume "in_literal s \<and> chain_mode cfg \<and> lex_iter cfg e c s = Inr (s', b)"
  then have "buff s' = buff s \<and> tokens s' = tokens s \<and>
      (in_literal s' \<and> gota_state s' = gota_state s \<or> state s' = start \<and> gota_state s' = other)"
    using literal_iter by blast
  then show "buff s' = buff s" "tokens s' = tokens s"
      "in_literal s' \<and> gota_state s' = gota_state s \<or> state s' = start \<and> gota_state s' = other"
    by simp_all
next
  assume "tmp_ok e"
  then show "map_option (map_sum id (found \<circ> fst))
        (lex_pass ((plain p)\<lparr>aswitch := True\<rparr>) e ((init files [])\<lparr>filen := Some f\<rparr>)
           (''x.'' @ [dq] @ ''lit'' @ [dq] @ ''y'' @ [newline])) =
      Some (Inr ((if p ''x'' then [(1, Some f, ''x'')] else []) @
                 (if p ''y'' then [(1, Some f, ''y'')] else [])))"
    by (simp add: run)
next
  assume "tmp_ok e"
  then show "map_option (map_sum id (found \<circ> fst))
        (lex_pass ((plain p)\<lparr>aswitch := True\<rparr>) e ((init files [])\<lparr>filen := Some f\<rparr>)
           (''x.'' @ [dq] @ ''lit'' @ [newline] @ ''y'' @ [newline])) =
      Some (Inr ((if p ''x'' then [(1, Some f, ''x'')] else []) @
                 (if p ''y'' then [(2, Some f, ''y'')] else [])))"
    by (simp add: run)
next
  assume "tmp_ok e"
  then show "map_option (map_sum id (found \<circ> fst))
        (lex_pass ((plain p)\<lparr>aswitch := True\<rparr>) e ((init files [])\<lparr>filen := Some f\<rparr>)
           (''x.'' @ [sq] @ ''c'' @ [sq] @ ''y'' @ [newline])) =
      Some (Inr ((if p ''x'' then [(1, Some f, ''x'')] else []) @
                 (if p ''y'' then [(1, Some f, ''y'')] else [])))"
    by (simp add: run)
qed

theorem literal_breaks_chain_witness:
  "in_literal ((init Map.empty [])\<lparr>state := dquote, gota_state := dot, buff := ''x.'', blen := 2,
      tokens := [\<lparr>tstart = 0, atline = 1\<rparr>], lineno := 1, line := ''x.'' @ [dq] @ ''lit'', w := 2\<rparr>) \<and>
   chain_mode (plain (literal ''x.y'')) \<and> tmp_ok quiet \<and>
   (\<exists>s' b. lex_iter (plain (literal ''x.y'')) quiet (Some dq)
       ((init Map.empty [])\<lparr>state := dquote, gota_state := dot, buff := ''x.'', blen := 2,
          tokens := [\<lparr>tstart = 0, atline = 1\<rparr>], lineno := 1, line := ''x.'' @ [dq] @ ''lit'', w := 2\<rparr>) =
       Inr (s', b) \<and> buff s' = ''x.'' \<and> state s' = start \<and> gota_state s' = other) \<and>
   (\<exists>s'. gota (plain (literal ''x.y'')) quiet word ''y'' ((init Map.empty [])\<lparr>gota_state := other\<rparr>) = Inr s' \<and>
       buff s' = ''y'' \<and> suffixes s' = [''y'']) \<and>
   map_option (map_sum id (found \<circ> fst))
     (lex_pass ((plain (literal ''x.y''))\<lparr>aswitch := True\<rparr>) quiet ((init Map.empty [])\<lparr>filen := Some ''a.c''\<rparr>)
        (''x.'' @ [dq] @ ''lit'' @ [dq] @ ''y'' @ [newline])) = Some (Inr [])"
proof -
  let ?cfg = "plain (literal ''x.y'')"
  let ?s0 = "(init Map.empty [])\<lparr>state := dquote, gota_state := dot, buff := ''x.'', blen := 2,
      tokens := [\<lparr>tstart = 0, atline = 1\<rparr>], lineno := 1, line := ''x.'' @ [dq] @ ''lit'', w := 2\<rparr>"
  let ?s1 = "?s0\<lparr>gota_state := other, state := start, line := ''x.'' @ [dq] @ ''lit'' @ [dq], rest := []\<rparr>"
  let ?s2 = "(init Map.empty [])\<lparr>gota_state := other\<rparr>"
  note T1 = literal_breaks_chain[where s="?s0" and cfg="?cfg" and e=quiet and c="Some dq"
      and s'="?s1" and b=False and what="''y''" and p="literal ''x.y''" and files=Map.empty and f="''a.c''"]
  note T2 = literal_breaks_chain[where s="?s2" and cfg="?cfg"
      and e=quiet and c="Some dq" and s'="?s1" and b=False and what="''y''" and p="literal ''x.y''"
      and files=Map.empty and f="''a.c''"]
  have it: "lex_iter ?cfg quiet (Some dq) ?s0 = Inr (?s1, False)"
    by (simp add: lex_iter_def lex_switch_def gota_def bind_def plain_def init_def)
  have h1: "in_literal ?s0" by (simp add: in_literal_def init_def)
  have h2: "chain_mode ?cfg" by (simp add: chain_mode_def plain_def)
  have h3: "tmp_ok quiet" by (simp add: quiet_def)
  have "buff ?s1 = buff ?s0 \<and> tokens ?s1 = tokens ?s0 \<and>
      (in_literal ?s1 \<and> gota_state ?s1 = gota_state ?s0 \<or> state ?s1 = start \<and> gota_state ?s1 = other)"
    using T1[THEN conjunct2, THEN conjunct2, THEN conjunct2, THEN conjunct2, THEN conjunct1] h1 h2 it
    by blast
  then have "buff ?s1 = ''x.'' \<and> state ?s1 = start \<and> gota_state ?s1 = other"
    by (simp add: init_def)
  with it have c5: "\<exists>s' b. lex_iter ?cfg quiet (Some dq) ?s0 = Inr (s', b) \<and> buff s' = ''x.'' \<and>
      state s' = start \<and> gota_state s' = other"
    by blast
  have "gota_state ?s2 = other" "aswitch ?cfg \<longrightarrow> tmp_ok quiet" by (simp_all add: h3)
  with T2[THEN conjunct2, THEN conjunct2, THEN conjunct2, THEN conjunct1] h2
  have c4: "\<exists>s'. gota ?cfg quiet word ''y'' ?s2 = Inr s' \<and> buff s' = ''y'' \<and> suffixes s' = [''y'']"
    by blast
  have c6: "map_option (map_sum id (found \<circ> fst))
     (lex_pass (?cfg\<lparr>aswitch := True\<rparr>) quiet ((init Map.empty [])\<lparr>filen := Some ''a.c''\<rparr>)
        (''x.'' @ [dq] @ ''lit'' @ [dq] @ ''y'' @ [newline])) = Some (Inr [])"
    using T1[THEN conjunct2, THEN conjunct2, THEN conjunct2, THEN conjunct2, THEN conjunct2] h3
    by (simp add: literal_def)
  from h1 h2 h3 c5 c4 c6 show ?thesis by (intro conjI)
qed

section \<open>Whole identifiers\<close>






section \<open>Identifiers start with a letter\<close>

lemma starts_alpha_append: "starts_alpha x \<Longrightarrow> starts_alpha (x @ y)"
  by (cases x) (simp_all add: starts_alpha_def)

lemma starts_alpha_cstr: "starts_alpha x \<Longrightarrow> starts_alpha (cstr (x @ y))"
  by (cases x) (auto simp: starts_alpha_def cstr_def dest: isalpha_not_special)

lemma starts_alpha_drop_le: "starts_alpha (drop n x) \<Longrightarrow> n \<le> length x"
  by (cases "n \<le> length x") (simp_all add: starts_alpha_def)

lemma starts_alpha_peek:
  assumes "starts_alpha (drop p (line s))"
  shows "starts_alpha (peek s p)"
proof -
  have "p \<le> length (line s)" using assms by (rule starts_alpha_drop_le)
  then have "drop p (line s @ rest s) = drop p (line s) @ rest s" by simp
  with starts_alpha_cstr[OF assms, of "rest s"] show ?thesis by (simp add: peek_def)
qed

lemma check_none:
  "list_all (\<lambda>t. \<not> pat cfg (drop (tstart t) (buff s))) ts \<Longrightarrow> check cfg e ts s = Inr s"
  by (induction ts) (simp_all add: Let_def)

lemma chain_ok_no_match:
  assumes "\<forall>x. pat cfg x \<longrightarrow> \<not> starts_alpha x" "chain_ok s"
  shows "list_all (\<lambda>t. \<not> pat cfg (drop (tstart t) (buff s))) (tokens s)"
  using assms by (auto simp: chain_ok_def list_all_iff)

lemma chain_ok_new:
  "starts_alpha what \<Longrightarrow> chain_ok (s\<lparr>tokens := [\<lparr>tstart = 0, atline = n\<rparr>], blen := length what, buff := what\<rparr>)"
  by (simp add: chain_ok_def)

lemma chain_ok_word:
  assumes "chain_ok s" "starts_alpha what"
  shows "chain_ok (s\<lparr>tokens := tokens s @ [\<lparr>tstart = blen s, atline = n\<rparr>],
            blen := blen s + length what, buff := buff s @ what\<rparr>)"
  using assms by (auto simp: chain_ok_def list_all_iff starts_alpha_append)

lemma chain_ok_dot:
  assumes "chain_ok s"
  shows "chain_ok (s\<lparr>blen := blen s + length what, buff := buff s @ what, gota_state := g\<rparr>)"
  using assms by (auto simp: chain_ok_def list_all_iff starts_alpha_append)

lemma chain_ok_upd [simp]:
  "chain_ok (s\<lparr>w := a\<rparr>) = chain_ok s" "chain_ok (s\<lparr>state := b\<rparr>) = chain_ok s"
  "chain_ok (s\<lparr>pstate := b\<rparr>) = chain_ok s" "chain_ok (s\<lparr>line := l\<rparr>) = chain_ok s"
  "chain_ok (s\<lparr>rest := l\<rparr>) = chain_ok s" "chain_ok (s\<lparr>marked := m\<rparr>) = chain_ok s"
  "chain_ok (s\<lparr>lineno := n\<rparr>) = chain_ok s" "chain_ok (s\<lparr>tfp := l\<rparr>) = chain_ok s"
  "chain_ok (s\<lparr>gota_state := g\<rparr>) = chain_ok s"
  by (simp_all add: chain_ok_def)

lemma unreported_upd [simp]:
  "unreported s (x\<lparr>w := a\<rparr>) = unreported s x" "unreported s (x\<lparr>state := b\<rparr>) = unreported s x"
  "unreported s (x\<lparr>pstate := b\<rparr>) = unreported s x" "unreported s (x\<lparr>line := l\<rparr>) = unreported s x"
  "unreported s (x\<lparr>rest := l\<rparr>) = unreported s x" "unreported s (x\<lparr>marked := m\<rparr>) = unreported s x"
  "unreported s (x\<lparr>lineno := n\<rparr>) = unreported s x" "unreported s (x\<lparr>tfp := l\<rparr>) = unreported s x"
  "unreported s (x\<lparr>gota_state := g\<rparr>) = unreported s x" "unreported s (x\<lparr>tokens := ts\<rparr>) = unreported s x"
  "unreported s (x\<lparr>blen := n\<rparr>) = unreported s x" "unreported s (x\<lparr>buff := l\<rparr>) = unreported s x"
  by (simp_all add: unreported_def)

lemma unreported_refl [simp]: "unreported s s"
  by (simp add: unreported_def)

lemma unreported_trans: "unreported s x \<Longrightarrow> unreported x y \<Longrightarrow> unreported s y"
  by (simp add: unreported_def)

lemma gota_no_match:
  assumes h: "\<forall>x. pat cfg x \<longrightarrow> \<not> starts_alpha x" and m: "\<not> sswitch cfg" "\<not> cswitch cfg"
    and c: "\<not> rswitch cfg \<and> gota_state s \<noteq> other \<longrightarrow> chain_ok s"
    and wd: "got = word \<longrightarrow> starts_alpha what" and nm: "\<not> marked s"
  shows "\<exists>s'. gota cfg e got what s = Inr s' \<and> \<not> marked s' \<and>
           (\<not> rswitch cfg \<and> gota_state s' \<noteq> other \<longrightarrow> chain_ok s') \<and>
           line s' = line s \<and> rest s' = rest s \<and> state s' = state s \<and> pstate s' = pstate s \<and>
           w s' = w s \<and> unreported s s'"
proof (cases "rswitch cfg")
  case True
  with h m wd nm show ?thesis by (auto simp: gota_def unreported_def)
next
  case False
  show ?thesis
  proof (cases got)
    case other
    with False m nm show ?thesis by (simp add: gota_def unreported_def)
  next
    case dot
    with False m nm c chain_ok_dot[where s=s and what=what and g=dot] show ?thesis by (auto simp: gota_def unreported_def)
  next
    case word
    define s1 where "s1 = (case gota_state s of
                       dot \<Rightarrow> s\<lparr>tokens := tokens s @ [\<lparr>tstart = blen s, atline = lineno s\<rparr>],
                                 blen := blen s + length what, buff := buff s @ what\<rparr>
                     | _ \<Rightarrow> s\<lparr>tokens := [\<lparr>tstart = 0, atline = lineno s\<rparr>],
                               blen := length what, buff := what\<rparr>)"
    have sa: "starts_alpha what" using wd word by simp
    have ok: "chain_ok s1"
      using c False sa chain_ok_new[where what=what and s=s and n="lineno s"] chain_ok_word[where what=what and s=s and n="lineno s"]
      by (cases "gota_state s") (simp_all add: s1_def)
    have ch: "check cfg e (tokens s1) s1 = Inr s1"
      by (rule check_none) (rule chain_ok_no_match[OF h ok])
    have g: "gota cfg e got what s = Inr (s1\<lparr>gota_state := wstate.word\<rparr>)"
      using False m word ch by (simp add: gota_def Let_def bind_def s1_def[symmetric])
    have "chain_ok (s1\<lparr>gota_state := wstate.word\<rparr>)" using ok by (simp add: chain_ok_def)
    moreover have "\<not> marked s1" "line s1 = line s" "rest s1 = rest s" "state s1 = state s"
      "pstate s1 = pstate s" "w s1 = w s" "unreported s s1"
      using nm by (simp_all add: s1_def unreported_def split: wstate.splits)
    ultimately show ?thesis using g by (simp add: unreported_def)
  qed
qed


lemma in_start_letters:
  assumes h: "\<forall>x. pat cfg x \<longrightarrow> \<not> starts_alpha x" and m: "\<not> sswitch cfg" "\<not> cswitch cfg"
    and c: "\<not> rswitch cfg \<and> gota_state s \<noteq> other \<longrightarrow> chain_ok s"
    and st: "state s = start" and nm: "\<not> marked s"
  shows "\<exists>s'. in_start cfg e ch s = Inr s' \<and> letters_mid cfg ch s' \<and> line s' = line s \<and> unreported s s'"
proof -
  from gota_no_match[OF h m c _ nm, of dot "''.''" e] obtain sd where
    d: "gota cfg e dot ''.'' s = Inr sd" "\<not> marked sd" "\<not> rswitch cfg \<and> gota_state sd \<noteq> other \<longrightarrow> chain_ok sd"
      "line sd = line s" "state sd = state s" "unreported s sd"
    by auto
  from gota_no_match[OF h m c _ nm, of other "[]" e] obtain so where
    o: "gota cfg e other [] s = Inr so" "\<not> marked so" "\<not> rswitch cfg \<and> gota_state so \<noteq> other \<longrightarrow> chain_ok so"
      "line so = line s" "state so = state s" "unreported s so"
    by auto
  have cu: "chain_ok (s\<lparr>w := a, state := b\<rparr>) = chain_ok s" "chain_ok (s\<lparr>state := b\<rparr>) = chain_ok s"
    "chain_ok (s\<lparr>pstate := b', state := b\<rparr>) = chain_ok s" for a b b'
    by (simp_all add: chain_ok_def)
  show ?thesis
    using d o st nm c
    by (simp add: in_start_def letters_mid_def unreported_def cu)
qed

lemma switch_letters:
  assumes h: "\<forall>x. pat cfg x \<longrightarrow> \<not> starts_alpha x" and m: "\<not> sswitch cfg" "\<not> cswitch cfg"
    and i: "letters cfg s"
  shows "\<exists>s1. lex_switch cfg e c (s\<lparr>rest := NUL # tl (rest s)\<rparr>) = Inr s1 \<and> letters_mid cfg c s1 \<and>
           line s1 = line s \<and> unreported s s1"
proof -
  define s0 where "s0 = s\<lparr>rest := NUL # tl (rest s)\<rparr>"
  have i0: "\<not> marked s0" "state s0 = state s" "pstate s0 = pstate s" "line s0 = line s" "w s0 = w s"
    "\<not> rswitch cfg \<and> gota_state s0 \<noteq> other \<longrightarrow> chain_ok s0" "unreported s s0"
    "state s = bsl \<longrightarrow> pstate s \<noteq> token" "state s = token \<longrightarrow> starts_alpha (drop (w s) (line s))"
    using i by (simp_all add: letters_def s0_def chain_ok_def unreported_def)
  have cu: "chain_ok (x\<lparr>state := b\<rparr>) = chain_ok x" "chain_ok (x\<lparr>w := a, state := b\<rparr>) = chain_ok x"
    "chain_ok (x\<lparr>pstate := b', state := b\<rparr>) = chain_ok x" for x a b b'
    by (simp_all add: chain_ok_def)
  have via_start: "\<exists>s1. in_start cfg e c (x\<lparr>state := start\<rparr>) = Inr s1 \<and> letters_mid cfg c s1 \<and>
      line s1 = line s \<and> unreported s s1"
    if "\<not> marked x" "\<not> rswitch cfg \<and> gota_state x \<noteq> other \<longrightarrow> chain_ok x" "line x = line s" "unreported s x"
    for x
    using in_start_letters[OF h m, of "x\<lparr>state := start\<rparr>" e c] that
    by (auto simp: cu unreported_def)
  have ?thesis if "lex_switch cfg e c s0 = in_start cfg e c (s0\<lparr>state := start\<rparr>)"
    using via_start[of s0] i0 that by (simp add: s0_def)
  note start_like = this
  show ?thesis
  proof (cases "state s")
    case start
    have same: "x\<lparr>state := v\<rparr> = x" if "state x = v" for x :: cgrep and v
      using that by auto
    from start i0 show ?thesis by (intro start_like) (simp add: lex_switch_def same)
  next
    case token
    show ?thesis
    proof (cases "isalnum c \<or> c = Some (CHR ''_'')")
      case True
      with token i0 show ?thesis
        by (simp add: lex_switch_def letters_mid_def s0_def[symmetric])
    next
      case False
      have sa: "starts_alpha (peek s0 (w s0))"
        using i0 token by (intro starts_alpha_peek) simp
      from gota_no_match[OF h m i0(6) _ i0(1), of word "peek s0 (w s0)" e] sa obtain s2 where
        g: "gota cfg e word (peek s0 (w s0)) s0 = Inr s2" "\<not> marked s2"
          "\<not> rswitch cfg \<and> gota_state s2 \<noteq> other \<longrightarrow> chain_ok s2" "line s2 = line s0" "unreported s0 s2"
        by auto
      have "lex_switch cfg e c s0 = in_start cfg e c (s2\<lparr>state := start\<rparr>)"
        using token False g i0 by (simp add: lex_switch_def bind_def)
      with via_start[of s2] g i0 show ?thesis by (simp add: s0_def unreported_def)
    qed
  next
    case minus'
    show ?thesis
    proof (cases "c = Some (CHR ''>'')")
      case False
      with minus' i0 show ?thesis by (intro start_like) (simp add: lex_switch_def)
    next
      case True
      from gota_no_match[OF h m i0(6) _ i0(1), of dot "''->''" e] obtain s2 where
        g: "gota cfg e dot ''->'' s0 = Inr s2" "\<not> marked s2"
          "\<not> rswitch cfg \<and> gota_state s2 \<noteq> other \<longrightarrow> chain_ok s2" "line s2 = line s0" "unreported s0 s2"
        by auto
      with minus' True i0 show ?thesis
        by (simp add: lex_switch_def bind_def letters_mid_def cu unreported_def s0_def[symmetric])
    qed
  next
    case slash
    show ?thesis
    proof (cases "c = Some (CHR ''*'')")
      case False
      with slash i0 show ?thesis by (intro start_like) (simp add: lex_switch_def)
    next
      case True
      with slash i0 show ?thesis
        by (simp add: lex_switch_def letters_mid_def cu s0_def[symmetric])
    qed
  next
    case comment
    with i0 show ?thesis
      by (simp add: lex_switch_def letters_mid_def in_comment_def cu s0_def[symmetric])
  next
    case star
    with i0 m show ?thesis
      by (simp add: lex_switch_def letters_mid_def in_comment_def bind_def cu s0_def[symmetric])
  next
    case bsl
    with i0 show ?thesis
      by (simp add: lex_switch_def letters_mid_def cu s0_def[symmetric])
  next
    case dquote
    from gota_no_match[OF h m _ _, of "s0\<lparr>state := start\<rparr>" other "[]" e] i0 obtain s2 where
      g: "gota cfg e other [] (s0\<lparr>state := start\<rparr>) = Inr s2" "\<not> marked s2"
        "\<not> rswitch cfg \<and> gota_state s2 \<noteq> other \<longrightarrow> chain_ok s2" "line s2 = line s0" "state s2 = start"
        "unreported (s0\<lparr>state := start\<rparr>) s2"
      by (auto simp: cu)
    with dquote i0 m show ?thesis
      by (simp add: lex_switch_def letters_mid_def cu unreported_def s0_def[symmetric])
  next
    case squote
    from gota_no_match[OF h m i0(6) _ i0(1), of other "[]" e] obtain s2 where
      g: "gota cfg e other [] s0 = Inr s2" "\<not> marked s2"
        "\<not> rswitch cfg \<and> gota_state s2 \<noteq> other \<longrightarrow> chain_ok s2" "line s2 = line s0" "unreported s0 s2"
      by auto
    with squote i0 show ?thesis
      by (simp add: lex_switch_def bind_def letters_mid_def cu unreported_def s0_def[symmetric])
  qed
qed


lemma letters_mid_not_token:
  "letters_mid cfg c s1 \<Longrightarrow> c = Some newline \<or> c = None \<Longrightarrow> state s1 \<noteq> token"
  by (auto simp: letters_mid_def isalnum_def isalpha_def)

lemma letters_append:
  assumes "letters_mid cfg (Some ch) s1"
  shows "letters cfg (s1\<lparr>line := line s1 @ [ch], rest := tl (rest s1)\<rparr>)"
proof (cases "state s1 = token")
  case False
  with assms show ?thesis by (simp add: letters_mid_def letters_def)
next
  case True
  with assms consider
    (more) "starts_alpha (drop (w s1) (line s1))" | (new) "isalpha (Some ch)" "w s1 = length (line s1)"
    by (auto simp: letters_mid_def)
  then have "starts_alpha (drop (w s1) (line s1 @ [ch]))"
  proof cases
    case more
    from starts_alpha_drop_le[OF more] starts_alpha_append[OF more, of "[ch]"] show ?thesis by simp
  next
    case new
    then show ?thesis by (simp add: starts_alpha_def)
  qed
  with assms True show ?thesis by (simp add: letters_mid_def letters_def)
qed

lemma letters_line_end:
  assumes m: "\<not> cswitch cfg" and i: "letters_mid cfg c s1" and c: "c = Some newline \<or> c = None"
  shows "\<exists>s'. line_end cfg e c s1 = Inr (s', c = None) \<and> letters cfg s' \<and> unreported s1 s'"
proof -
  have nt: "state s1 \<noteq> token" using i c by (rule letters_mid_not_token)
  with i have l: "letters cfg s1" "\<not> marked s1" by (simp_all add: letters_mid_def letters_def)
  show ?thesis
  proof (cases "rswitch cfg \<and> c = None \<and> line s1 = []")
    case True
    with l show ?thesis by (simp add: line_end_def)
  next
    case False
    with m l nt c show ?thesis
      by (cases "rswitch cfg")
         (auto simp: line_end_def Let_def bind_def letters_def split: option.splits)
  qed
qed

lemma letters_step:
  assumes h: "\<forall>x. pat cfg x \<longrightarrow> \<not> starts_alpha x" and m: "\<not> sswitch cfg" "\<not> cswitch cfg"
    and i: "letters cfg s"
  shows "\<exists>s'. lex_iter cfg e c s = Inr (s', c = None) \<and> letters cfg s' \<and> unreported s s'"
proof -
  from switch_letters[OF h m i, of e c] obtain s1 where
    sw: "lex_switch cfg e c (s\<lparr>rest := NUL # tl (rest s)\<rparr>) = Inr s1" and mid: "letters_mid cfg c s1"
    and u: "unreported s s1" by blast
  show ?thesis
  proof (cases "c \<noteq> Some newline \<and> c \<noteq> None")
    case True
    then obtain ch where ch: "c = Some ch" "ch \<noteq> newline" by auto
    with letters_append[of cfg ch s1] mid sw u show ?thesis
      by (simp add: lex_iter_def bind_def)
  next
    case False
    then have c: "c = Some newline \<or> c = None" by auto
    from letters_line_end[OF m(2) mid c, of e] obtain s' where
      "line_end cfg e c s1 = Inr (s', c = None)" "letters cfg s'" "unreported s1 s'" by blast
    with sw u False show ?thesis
      by (auto simp: lex_iter_def bind_def intro: unreported_trans)
  qed
qed

lemma letters_loop:
  assumes h: "\<forall>x. pat cfg x \<longrightarrow> \<not> starts_alpha x" and m: "\<not> sswitch cfg" "\<not> cswitch cfg"
  shows "letters cfg s \<Longrightarrow> \<exists>s'. lex_loop cfg e s inp = Some (Inr (s', [])) \<and> unreported s s'"
proof (induction inp arbitrary: s)
  case Nil
  from letters_step[OF h m Nil, of e None] show ?case by (auto simp: lex_loop_Nil)
next
  case (Cons ch inp)
  from letters_step[OF h m Cons.prems, of e "Some ch"] obtain s1 where
    1: "lex_iter cfg e (Some ch) s = Inr (s1, False)" "letters cfg s1" "unreported s s1" by auto
  from Cons.IH[OF 1(2)] obtain s' where "lex_loop cfg e s1 inp = Some (Inr (s', []))" "unreported s1 s'"
    by blast
  with 1 show ?case by (auto simp: lex_loop_Cons intro: unreported_trans)
qed

lemma letters_pass:
  assumes h: "\<forall>x. pat cfg x \<longrightarrow> \<not> starts_alpha x" and m: "\<not> sswitch cfg" "\<not> cswitch cfg"
  shows "\<exists>s'. lex_pass cfg e s inp = Some (Inr (s', [])) \<and> unreported s s'"
proof -
  define s0 where "s0 = s\<lparr>lineno := 1, line := [], rest := [], marked := False\<rparr>"
  define s1 where "s1 = (if rswitch cfg then s0 else s0\<lparr>gota_state := other\<rparr>)\<lparr>state := start\<rparr>"
  have g: "lex_pass cfg e s inp = lex_loop cfg e s1 inp"
    using m by (simp add: lex_pass_def gota_def s0_def s1_def)
  have "letters cfg s1" by (simp add: letters_def s1_def s0_def)
  from letters_loop[OF h m this, of e inp] obtain s' where
    "lex_loop cfg e s1 inp = Some (Inr (s', []))" "unreported s1 s'" by blast
  moreover have "unreported s s1" by (simp add: s1_def s0_def)
  ultimately show ?thesis using g by (auto intro: unreported_trans)
qed

text \<open>
  Claim C9. An identifier token is started only by a letter; a leading underscore or
  digit is not part of it, and underscores and digits only extend an identifier that
  has started. First conjunct: a pattern that holds of no string that starts with a
  letter, such as the anchored \<^verbatim>\<open>_foo\<close>, never matches: for every input, in every mode
  that tests identifiers (all but \<^verbatim>\<open>-s\<close> and \<^verbatim>\<open>-c\<close>), the pass reports nothing, finds nothing
  and replaces nothing. Second conjunct: on the line \<^verbatim>\<open>_foo\<close> the word tested is \<^verbatim>\<open>foo\<close>, so
  the line is reported exactly when the pattern matches \<^verbatim>\<open>foo\<close>. Third conjunct: on the
  line \<^verbatim>\<open>9a_1\<close> the word tested is \<^verbatim>\<open>a_1\<close>: the leading digit is left out, the underscore
  and the digit after the letter are part of the word.
\<close>

theorem letter_starts_identifier:
  "((\<forall>x. pat cfg x \<longrightarrow> \<not> starts_alpha x) \<and> \<not> sswitch cfg \<and> \<not> cswitch cfg \<longrightarrow>
      (\<exists>s'. lex_pass cfg e s inp = Some (Inr (s', [])) \<and> out s' = out s \<and> found s' = found s \<and>
             changed s' = changed s)) \<and>
   map_option (map_sum id out) (lex (plain p) e (init files (''_foo'' @ [newline]))) =
     Some (Inr (if p ''foo'' then [Hit None None ''_foo''] else [])) \<and>
   map_option (map_sum id out) (lex (plain p) e (init files (''9a_1'' @ [newline]))) =
     Some (Inr (if p ''a_1'' then [Hit None None ''9a_1''] else []))"
proof (intro conjI impI)
  assume a: "(\<forall>x. pat cfg x \<longrightarrow> \<not> starts_alpha x) \<and> \<not> sswitch cfg \<and> \<not> cswitch cfg"
  then have h: "\<forall>x. pat cfg x \<longrightarrow> \<not> starts_alpha x" and m: "\<not> sswitch cfg" "\<not> cswitch cfg" by simp_all
  from letters_pass[OF h m, of e s inp]
  show "\<exists>s'. lex_pass cfg e s inp = Some (Inr (s', [])) \<and> out s' = out s \<and> found s' = found s \<and>
             changed s' = changed s"
    by (auto simp: unreported_def found_def)
next
  show "map_option (map_sum id out) (lex (plain p) e (init files (''_foo'' @ [newline]))) =
     Some (Inr (if p ''foo'' then [Hit None None ''_foo''] else []))"
    by (simp add: run)
next
  show "map_option (map_sum id out) (lex (plain p) e (init files (''9a_1'' @ [newline]))) =
     Some (Inr (if p ''a_1'' then [Hit None None ''9a_1''] else []))"
    by (simp add: run)
qed

theorem letter_starts_identifier_witness:
  "\<not> starts_alpha ''_foo'' \<and>
   (\<exists>s'. lex_pass (plain (literal ''_foo'')) quiet (init Map.empty []) (''_foo = a._foo;'' @ [newline]) =
            Some (Inr (s', [])) \<and> out s' = [] \<and> found s' = []) \<and>
   map_option (map_sum id out) (lex (plain (literal ''foo'')) quiet (init Map.empty (''_foo'' @ [newline]))) =
     Some (Inr [Hit None None ''_foo'']) \<and>
   map_option (map_sum id out) (lex (plain (literal ''_foo'')) quiet (init Map.empty (''_foo'' @ [newline]))) =
     Some (Inr [])"
proof -
  have n: "\<not> starts_alpha ''_foo''" by (simp add: starts_alpha_def isalpha_def)
  then have h: "(\<forall>x. pat (plain (literal ''_foo'')) x \<longrightarrow> \<not> starts_alpha x) \<and>
     \<not> sswitch (plain (literal ''_foo'')) \<and> \<not> cswitch (plain (literal ''_foo''))"
    by (simp add: plain_def literal_def)
  note T = letter_starts_identifier[where cfg="plain (literal ''_foo'')" and e=quiet
      and s="init Map.empty []" and inp="''_foo = a._foo;'' @ [newline]" and files=Map.empty]
  have f0: "found (init Map.empty []) = []" "out (init Map.empty []) = []"
    by (simp_all add: found_def init_def)
  from T[where p="literal ''foo''", THEN conjunct1] h
  have 1: "\<exists>s'. lex_pass (plain (literal ''_foo'')) quiet (init Map.empty []) (''_foo = a._foo;'' @ [newline]) =
            Some (Inr (s', [])) \<and> out s' = [] \<and> found s' = []"
    by (auto simp: f0)
  from T[where p="literal ''foo''", THEN conjunct2, THEN conjunct1]
  have 2: "map_option (map_sum id out) (lex (plain (literal ''foo'')) quiet (init Map.empty (''_foo'' @ [newline]))) =
     Some (Inr [Hit None None ''_foo''])"
    by (simp add: literal_def)
  from T[where p="literal ''_foo''", THEN conjunct2, THEN conjunct1]
  have 3: "map_option (map_sum id out) (lex (plain (literal ''_foo'')) quiet (init Map.empty (''_foo'' @ [newline]))) =
     Some (Inr [])"
    by (simp add: literal_def)
  from n 1 2 3 show ?thesis by (intro conjI)
qed

end
